theory Spec2Isabelle
  imports Main "HOL-Library.Word"
begin

chapter \<open>Symmetric-memory device primitives (CUDASymmetricMemory-inl.h)\<close>

text \<open>
  A shallow embedding of \<^verbatim>\<open>torch/csrc/distributed/c10d/CUDASymmetricMemory-inl.h\<close>:
  the alignment probe, the compare-and-swap with its four ordering tokens, the two
  spin loops built on it, the block synchronization and the multicast operations.

  Conventions of the embedding.
  \<^item> \<^verbatim>\<open>uint32_t\<close> is \<open>32 word\<close>, \<^verbatim>\<open>size_t\<close> and \<^verbatim>\<open>uintptr_t\<close> are \<open>64 word\<close>;
    arithmetic on them wraps around as in C++.
  \<^item> The preprocessor symbols the header tests are the fields of a record
    \<open>build_config\<close>; every function whose text depends on them takes the record.
  \<^item> A template parameter is an ordinary argument. An instantiation that does not
    build (a \<^verbatim>\<open>static_assert\<close> that fires, a template that is declared and never
    defined) and a device-side assertion that fails are values of the type \<open>error\<close>;
    a device function returns \<open>(error + 'a) \<times> device\<close>, the memory it leaves behind
    included, so that a failure shows what had been written before it.
  \<^item> A device function runs in a thread. CUDA makes the thread's coordinates
    available everywhere (\<^verbatim>\<open>threadIdx\<close>, \<^verbatim>\<open>blockIdx\<close>); here they are an argument
    \<open>who :: thread_ctx\<close>.
\<close>

section \<open>Machine types and constants\<close>

type_synonym u32 = "32 word"
type_synonym uintptr_t = "64 word"
type_synonym size_t = "64 word"

text \<open>Lines 11-12.\<close>

definition max_num_threads_per_block :: nat where
  "max_num_threads_per_block = 1024"

definition max_num_blocks :: nat where
  "max_num_blocks = 8"

section \<open>Alignment probe (lines 14-33)\<close>

text \<open>
  \<^verbatim>\<open>get_alignment<T>(ptr_or_size)\<close> reinterprets its argument as a \<^verbatim>\<open>uintptr_t\<close> and
  tests divisibility by 16, 8, 4 and 2 in this order. The argument of the embedding is
  that 64-bit value. The specialization for \<^verbatim>\<open>size_t\<close> casts the size to a pointer and
  calls the generic function: the bits do not change.
\<close>

definition get_alignment :: "uintptr_t \<Rightarrow> size_t" where
  "get_alignment val =
     (if val mod 16 = 0 then 16
      else if val mod 8 = 0 then 8
      else if val mod 4 = 0 then 4
      else if val mod 2 = 0 then 2
      else 1)"

definition get_alignment_size_t :: "size_t \<Rightarrow> size_t" where
  "get_alignment_size_t sz = get_alignment sz"

section \<open>Build configuration and failures\<close>

text \<open>
  \<open>CUDA_ARCH\<close> is \<open>None\<close> when \<^verbatim>\<open>__CUDA_ARCH__\<close> is not defined (the host pass).
  Lines 3-5 define \<^verbatim>\<open>NVCC_SUPPORTS_MULTICAST\<close>.
\<close>

record build_config =
  USE_ROCM :: bool
  CUDA_ARCH :: "nat option"
  CUDART_VERSION :: nat

definition NVCC_SUPPORTS_MULTICAST :: "build_config \<Rightarrow> bool" where
  "NVCC_SUPPORTS_MULTICAST cfg =
     (case CUDA_ARCH cfg of
        None \<Rightarrow> False
      | Some arch \<Rightarrow> arch \<ge> 900 \<and> CUDART_VERSION cfg \<ge> 12010)"

text \<open>The condition of the \<^verbatim>\<open>#if\<close> in \<^verbatim>\<open>cas\<close> (line 61).\<close>

definition cas_unsupported :: "build_config \<Rightarrow> bool" where
  "cas_unsupported cfg =
     (USE_ROCM cfg \<or> (case CUDA_ARCH cfg of None \<Rightarrow> False | Some arch \<Rightarrow> arch < 800))"

text \<open>The condition of the \<^verbatim>\<open>#if\<close> at lines 184 and 231.\<close>

definition multicast_unsupported :: "build_config \<Rightarrow> bool" where
  "multicast_unsupported cfg = (USE_ROCM cfg \<or> \<not> NVCC_SUPPORTS_MULTICAST cfg)"

text \<open>
  \<open>StaticAssertFailed\<close>: a \<^verbatim>\<open>static_assert\<close> on a dependent false value was instantiated.
  \<open>DeclaredNotDefined\<close>: a template that is declared and has no definition for these
  arguments was used. Both stop the build. \<open>KernelAssertFailed\<close>: a device-side assertion
  failed while the kernel ran. \<open>NoReturnValue\<close>: control reached the end of a function
  that must return a value.
\<close>

datatype error =
    StaticAssertFailed
  | DeclaredNotDefined
  | KernelAssertFailed
  | NoReturnValue

text \<open>
  Modelled from the spec: the macro \<^verbatim>\<open>CUDA_KERNEL_ASSERT\<close> is used by this header and
  defined elsewhere in the repository. The specification calls what it does on a false
  condition "a fatal, unrecoverable abort" and "a fatal device-side abort": the kernel
  stops there. On a true condition execution goes on.
\<close>

definition CUDA_KERNEL_ASSERT :: "bool \<Rightarrow> error + unit" where
  "CUDA_KERNEL_ASSERT cond = (if cond then Inr () else Inl KernelAssertFailed)"

section \<open>Device memory and the compare-and-swap (lines 45-76)\<close>

datatype MemOpSem = Relaxed | Acquire | Release | AcqRel

text \<open>
  A \<^verbatim>\<open>uint32_t*\<close> is the address of a 32-bit word: it names an allocation (\<open>pad\<close>) and
  a word of it (\<open>slot\<close>). Adding a \<^verbatim>\<open>size_t\<close> \<open>n\<close> to the pointer moves the address by
  \<open>4 * n\<close> bytes in a 64-bit address space, that is, the word index by \<open>n\<close> modulo
  \<open>2 ^ 62\<close>: the index is a 62-bit word, and \<open>ucast\<close> keeps the low 62 bits of \<open>n\<close>.
\<close>

datatype ptr = Ptr (pad: nat) (slot: "62 word")

definition ptr_add :: "ptr \<Rightarrow> size_t \<Rightarrow> ptr" where
  "ptr_add p n = Ptr (pad p) (slot p + ucast n)"

record thread_ctx =
  gpu :: nat
  blockIdx_x :: u32
  threadIdx_x :: u32

text \<open>
  The device state is the memory of the signal pads and a history of the
  compare-and-swap instructions executed so far: who issued which instruction, on which
  address, with which operands, and the value it found.
\<close>

datatype cas_event =
  CasEvent (ev_issuer: thread_ctx) (ev_opcode: string) (ev_addr: ptr)
           (ev_compare: u32) (ev_val: u32) (ev_old: u32)

record device =
  mem :: "ptr \<Rightarrow> u32"
  cas_log :: "cas_event list"

text \<open>
  The macro \<^verbatim>\<open>CAS_ASM\<close> (lines 52-56) emits one PTX instruction
  \<^verbatim>\<open>atom.global<sem>.sys.cas.b32 old, [addr], compare, val\<close>: atomically, the word at
  \<open>addr\<close> is read into \<open>old_val\<close> and replaced by \<open>val\<close> if it equals \<open>compare\<close>.
\<close>

definition CAS_ASM ::
  "thread_ctx \<Rightarrow> ptr \<Rightarrow> u32 \<Rightarrow> u32 \<Rightarrow> string \<Rightarrow> device \<Rightarrow> u32 \<times> device" where
  "CAS_ASM who addr compare val sem d =
     (let old_val = mem d addr in
      (old_val,
       d\<lparr>mem := (if old_val = compare then (mem d)(addr := val) else mem d),
         cas_log := cas_log d @
           [CasEvent who (''atom.global'' @ sem @ ''.sys.cas.b32'') addr compare val old_val]\<rparr>))"

text \<open>
  \<^verbatim>\<open>cas<Sem>\<close>. In a ROCm build or below architecture 800 the body is
  \<^verbatim>\<open>CUDA_KERNEL_ASSERT(false)\<close> and nothing else (no \<^verbatim>\<open>return\<close>). Otherwise an
  \<^verbatim>\<open>if constexpr\<close> chain selects the instruction for \<open>Relaxed\<close>, \<open>Acquire\<close> and
  \<open>Release\<close>; its last branch is \<^verbatim>\<open>static_assert(dependent_false_nt<Sem>)\<close>.
\<close>

definition cas ::
  "thread_ctx \<Rightarrow> build_config \<Rightarrow> MemOpSem \<Rightarrow> ptr \<Rightarrow> u32 \<Rightarrow> u32 \<Rightarrow> device
     \<Rightarrow> (error + u32) \<times> device" where
  "cas who cfg Sem addr compare val d =
     (if cas_unsupported cfg
      then (case CUDA_KERNEL_ASSERT False of
              Inl abort \<Rightarrow> (Inl abort, d)
            | Inr _ \<Rightarrow> (Inl NoReturnValue, d))
      else (case Sem of
              Relaxed \<Rightarrow>
                (case CAS_ASM who addr compare val ''.relaxed'' d of
                   (old_val, d') \<Rightarrow> (Inr old_val, d'))
            | Acquire \<Rightarrow>
                (case CAS_ASM who addr compare val ''.acquire'' d of
                   (old_val, d') \<Rightarrow> (Inr old_val, d'))
            | Release \<Rightarrow>
                (case CAS_ASM who addr compare val ''.release'' d of
                   (old_val, d') \<Rightarrow> (Inr old_val, d'))
            | AcqRel \<Rightarrow> (Inl StaticAssertFailed, d)))"

section \<open>Signal put and wait (lines 78-88)\<close>

text \<open>
  Both functions are one loop with an empty body,
  \<^verbatim>\<open>while (cas<Sem>(addr, compare, val) != until) ;\<close>
  which other threads can interleave with between any two of its iterations. A loop is
  therefore a value: the compare-and-swap it repeats and the result that ends it.
  \<open>spin_iter\<close> runs one iteration (one evaluation of the loop condition) and says
  whether the loop goes round again.
\<close>

datatype spin =
  Spin (spin_sem: MemOpSem) (spin_addr: ptr) (spin_compare: u32) (spin_val: u32)
       (spin_until: u32)

definition put_signal :: "MemOpSem \<Rightarrow> ptr \<Rightarrow> spin" where
  "put_signal Sem addr = Spin Sem addr 0 1 0"

definition wait_signal :: "MemOpSem \<Rightarrow> ptr \<Rightarrow> spin" where
  "wait_signal Sem addr = Spin Sem addr 1 0 1"

definition spin_iter ::
  "build_config \<Rightarrow> thread_ctx \<Rightarrow> spin \<Rightarrow> device \<Rightarrow> (error + bool) \<times> device" where
  "spin_iter cfg who l d =
     (case cas who cfg (spin_sem l) (spin_addr l) (spin_compare l) (spin_val l) d of
        (Inl e, d') \<Rightarrow> (Inl e, d')
      | (Inr old_val, d') \<Rightarrow> (Inr (old_val \<noteq> spin_until l), d'))"

section \<open>Block synchronization (lines 112-144)\<close>

text \<open>
  The primary template is declared only; \<open>Relaxed\<close> and \<open>AcqRel\<close> are specialized.
  \<open>signal_pads\<close> is the table of pad pointers as the caller laid it out, read at an
  index. The result is what the calling thread executes: nothing, or the put loop followed
  by the wait loop. The pointer expression
  \<^verbatim>\<open>signal_pads[target_rank] + blockIdx.x * world_size + rank\<close> associates to the left.
\<close>

fun sync_remote_blocks ::
  "MemOpSem \<Rightarrow> thread_ctx \<Rightarrow> (nat \<Rightarrow> ptr) \<Rightarrow> size_t \<Rightarrow> size_t \<Rightarrow> error + spin list" where
  "sync_remote_blocks Relaxed who signal_pads rank world_size =
     Inr (if ucast (threadIdx_x who) < world_size then
            (let target_rank = threadIdx_x who in
             [put_signal Relaxed
                (ptr_add (ptr_add (signal_pads (unat target_rank))
                                  (ucast (blockIdx_x who) * world_size)) rank),
              wait_signal Relaxed
                (ptr_add (ptr_add (signal_pads (unat rank))
                                  (ucast (blockIdx_x who) * world_size)) (ucast target_rank))])
          else [])"
| "sync_remote_blocks AcqRel who signal_pads rank world_size =
     Inr (if ucast (threadIdx_x who) < world_size then
            (let target_rank = threadIdx_x who in
             [put_signal Release
                (ptr_add (ptr_add (signal_pads (unat target_rank))
                                  (ucast (blockIdx_x who) * world_size)) rank),
              wait_signal Acquire
                (ptr_add (ptr_add (signal_pads (unat rank))
                                  (ucast (blockIdx_x who) * world_size)) (ucast target_rank))])
          else [])"
| "sync_remote_blocks Acquire who signal_pads rank world_size = Inl DeclaredNotDefined"
| "sync_remote_blocks Release who signal_pads rank world_size = Inl DeclaredNotDefined"

section \<open>Multicast load-reduce and store (lines 146-257)\<close>

text \<open>
  \<^verbatim>\<open>Vec<Size>\<close> is defined for the sizes 4, 8 and 16 and only declared for any other;
  the multicast code reads and writes it through its \<^verbatim>\<open>u32\<close> lanes, so a value is the
  list of its 32-bit lanes. The element type \<open>T\<close> is \<^verbatim>\<open>at::BFloat16\<close>, \<^verbatim>\<open>float\<close> or
  any other type, given by its name.

  The two \<^verbatim>\<open>multimem\<close> instructions are executed by the hardware, which adds floating
  point numbers in an order of its own: what they return and write is a parameter
  \<open>hw\<close> of the embedding, applied to the opcode the header assembles.
\<close>

datatype elem_type = T_BFloat16 | T_float | T_other string

type_synonym Vec = "u32 list"
type_synonym mc_ptr = "64 word"

definition Vec_defined :: "int \<Rightarrow> bool" where
  "Vec_defined Size = (Size = 4 \<or> Size = 8 \<or> Size = 16)"

record multicast_hw =
  hw_ld_reduce :: "string \<Rightarrow> mc_ptr \<Rightarrow> device \<Rightarrow> nat \<Rightarrow> u32"
  hw_st :: "string \<Rightarrow> mc_ptr \<Rightarrow> u32 list \<Rightarrow> device \<Rightarrow> device"

text \<open>
  The macro of lines 184-224, for one element type with its PTX type name. The return
  type \<^verbatim>\<open>Vec<Alignment>\<close> must be complete in either branch of the \<^verbatim>\<open>#if\<close>.
\<close>

definition SPECIALIZE_MULTIMEM_LD_REDUCE_VEC_32 ::
  "build_config \<Rightarrow> multicast_hw \<Rightarrow> string \<Rightarrow> int \<Rightarrow> mc_ptr \<Rightarrow> device
     \<Rightarrow> (error + Vec) \<times> device" where
  "SPECIALIZE_MULTIMEM_LD_REDUCE_VEC_32 cfg hw asm_type Alignment mc_ptr d =
     (if \<not> Vec_defined Alignment then (Inl DeclaredNotDefined, d)
      else if multicast_unsupported cfg then
        (case CUDA_KERNEL_ASSERT False of
           Inl abort \<Rightarrow> (Inl abort, d)
         | Inr _ \<Rightarrow> (Inl NoReturnValue, d))
      else if Alignment = 16 then
        (Inr (map (hw_ld_reduce hw
                     (''multimem.ld_reduce.relaxed.sys.global.add.v4.'' @ asm_type) mc_ptr d)
                  [0..<4]), d)
      else if Alignment = 8 then
        (Inr (map (hw_ld_reduce hw
                     (''multimem.ld_reduce.relaxed.sys.global.add.v2.'' @ asm_type) mc_ptr d)
                  [0..<2]), d)
      else
        (Inr (map (hw_ld_reduce hw
                     (''multimem.ld_reduce.relaxed.sys.global.add.'' @ asm_type) mc_ptr d)
                  [0..<1]), d))"

text \<open>
  The functor: the primary template (lines 170-176) holds
  \<^verbatim>\<open>static_assert(dependent_false<T>)\<close>; lines 226-227 specialize it for two types.
\<close>

definition MultimemLdReduce ::
  "build_config \<Rightarrow> multicast_hw \<Rightarrow> elem_type \<Rightarrow> int \<Rightarrow> mc_ptr \<Rightarrow> device
     \<Rightarrow> (error + Vec) \<times> device" where
  "MultimemLdReduce cfg hw T Alignment mc_ptr d =
     (case T of
        T_BFloat16 \<Rightarrow> SPECIALIZE_MULTIMEM_LD_REDUCE_VEC_32 cfg hw ''bf16x2'' Alignment mc_ptr d
      | T_float \<Rightarrow> SPECIALIZE_MULTIMEM_LD_REDUCE_VEC_32 cfg hw ''f32'' Alignment mc_ptr d
      | T_other n \<Rightarrow> (Inl StaticAssertFailed, d))"

definition multimem_ld_reduce_add ::
  "build_config \<Rightarrow> multicast_hw \<Rightarrow> int \<Rightarrow> elem_type \<Rightarrow> mc_ptr \<Rightarrow> device
     \<Rightarrow> (error + Vec) \<times> device" where
  "multimem_ld_reduce_add cfg hw Alignment T mc_ptr d =
     MultimemLdReduce cfg hw T Alignment mc_ptr d"

definition multimem_st ::
  "build_config \<Rightarrow> multicast_hw \<Rightarrow> int \<Rightarrow> elem_type \<Rightarrow> mc_ptr \<Rightarrow> Vec \<Rightarrow> device
     \<Rightarrow> (error + unit) \<times> device" where
  "multimem_st cfg hw Alignment T mc_ptr vec d =
     (if multicast_unsupported cfg then
        (case CUDA_KERNEL_ASSERT False of
           Inl abort \<Rightarrow> (Inl abort, d)
         | Inr u \<Rightarrow> (Inr u, d))
      else if Alignment = 16 then
        (Inr (), hw_st hw ''multimem.st.relaxed.sys.global.v4.f32'' mc_ptr (take 4 vec) d)
      else if Alignment = 8 then
        (Inr (), hw_st hw ''multimem.st.relaxed.sys.global.v2.f32'' mc_ptr (take 2 vec) d)
      else if Alignment = 4 then
        (Inr (), hw_st hw ''multimem.st.relaxed.sys.global.f32'' mc_ptr (take 1 vec) d)
      else (Inl StaticAssertFailed, d))"

section \<open>Threads running side by side\<close>

text \<open>
  The primitives are meant for many threads on several devices that share the signal
  pads. A \<open>thread\<close> is its coordinates and the loops it has still to run, the first of
  them being the one it is in. In one \<open>step\<close> the thread chosen by the schedule runs one
  iteration of its current loop: one compare-and-swap, which the hardware executes
  atomically. If the loop ends the thread moves on to the next one; if the
  compare-and-swap fails (a build failure in its instantiation, or the device-side
  assertion), the failure is recorded and nothing runs any more. \<open>run\<close> follows a
  schedule, a list of thread numbers; a theorem about every schedule is a theorem about
  every interleaving. A number that names no thread, or a thread that has returned, makes
  an idle step.

  Every access to a slot is one of these atomic read-modify-write instructions, and the
  hardware orders the instructions on one word in a single sequence, whichever ordering
  suffix they carry; what is proved below about the values of a slot rests on nothing
  more. What \<^verbatim>\<open>.acquire\<close> and \<^verbatim>\<open>.release\<close> add, the visibility of other memory, is not
  part of this state: the suffix is kept in the history of instructions and nowhere else.
\<close>

record thread =
  th_ctx :: thread_ctx
  th_prog :: "spin list"

record system =
  dev :: device
  threads :: "thread list"
  fault :: "error option"

definition step :: "build_config \<Rightarrow> system \<Rightarrow> nat \<Rightarrow> system" where
  "step cfg S i =
     (if fault S \<noteq> None \<or> length (threads S) \<le> i then S
      else
        (case th_prog (threads S ! i) of
           [] \<Rightarrow> S
         | l # rest \<Rightarrow>
             (case spin_iter cfg (th_ctx (threads S ! i)) l (dev S) of
                (Inl e, d') \<Rightarrow> S\<lparr>dev := d', fault := Some e\<rparr>
              | (Inr again, d') \<Rightarrow>
                  S\<lparr>dev := d',
                    threads := (threads S)
                      [i := (threads S ! i)\<lparr>th_prog := (if again then l # rest else rest)\<rparr>]\<rparr>)))"

definition run :: "build_config \<Rightarrow> nat list \<Rightarrow> system \<Rightarrow> system" where
  "run cfg sched S = foldl (step cfg) S sched"

text \<open>
  A thread that calls \<^verbatim>\<open>sync_remote_blocks<Sem>(signal_pads, rank, world_size)\<close> joins
  the system with the loops of that call, or makes the build fail. One synchronization
  epoch of block \<open>b\<close>: on each of the \<open>world_size\<close> ranks the \<open>block_dim\<close> threads of
  block \<open>b\<close> make the call, on memory \<open>m0\<close>.
\<close>

definition sync_call ::
  "MemOpSem \<Rightarrow> (nat \<Rightarrow> ptr) \<Rightarrow> size_t \<Rightarrow> size_t \<Rightarrow> thread_ctx \<Rightarrow> system \<Rightarrow> system" where
  "sync_call Sem signal_pads rank world_size who S =
     (case sync_remote_blocks Sem who signal_pads rank world_size of
        Inl e \<Rightarrow> S\<lparr>fault := Some e\<rparr>
      | Inr prog \<Rightarrow> S\<lparr>threads := threads S @ [\<lparr>th_ctx = who, th_prog = prog\<rparr>]\<rparr>)"

definition sync_epoch ::
  "MemOpSem \<Rightarrow> (nat \<Rightarrow> ptr) \<Rightarrow> nat \<Rightarrow> u32 \<Rightarrow> nat \<Rightarrow> (ptr \<Rightarrow> u32) \<Rightarrow> system" where
  "sync_epoch Sem signal_pads world_size b block_dim m0 =
     foldl (\<lambda>S (r, t). sync_call Sem signal_pads (of_nat r) (of_nat world_size)
                         \<lparr>gpu = r, blockIdx_x = b, threadIdx_x = of_nat t\<rparr> S)
       \<lparr>dev = \<lparr>mem = m0, cas_log = []\<rparr>, threads = [], fault = None\<rparr>
       (List.product [0..<world_size] [0..<block_dim])"

section \<open>Notions the properties are stated with\<close>

text \<open>The loops that \<^verbatim>\<open>put_signal\<close> and \<^verbatim>\<open>wait_signal\<close> build, whatever the ordering.\<close>

definition is_put :: "spin \<Rightarrow> bool" where
  "is_put l = (spin_compare l = 0 \<and> spin_val l = 1 \<and> spin_until l = 0)"

definition is_wait :: "spin \<Rightarrow> bool" where
  "is_wait l = (spin_compare l = 1 \<and> spin_val l = 0 \<and> spin_until l = 1)"

definition signals_only :: "system \<Rightarrow> bool" where
  "signals_only S = list_all (\<lambda>t. list_all (\<lambda>l. is_put l \<or> is_wait l) (th_prog t)) (threads S)"

text \<open>The number of puts (or waits) on slot \<open>a\<close> that have not returned yet.\<close>

definition pending :: "(spin \<Rightarrow> bool) \<Rightarrow> ptr \<Rightarrow> system \<Rightarrow> nat" where
  "pending kind a S =
     sum_list (map (\<lambda>t. length (filter (\<lambda>l. kind l \<and> spin_addr l = a) (th_prog t))) (threads S))"

definition balance :: "ptr \<Rightarrow> system \<Rightarrow> int" where
  "balance a S =
     int (unat (mem (dev S) a)) + int (pending is_put a S) - int (pending is_wait a S)"

text \<open>Every thread has returned from every call, and nothing failed.\<close>

definition finished :: "system \<Rightarrow> bool" where
  "finished S = (fault S = None \<and> list_all (\<lambda>t. th_prog t = []) (threads S))"

text \<open>
  The values slot \<open>a\<close> holds along a run: before the first step and after each step.
  \<open>alternation n\<close> is the list \<open>0, 1, 0, 1, \<dots>\<close> of length \<open>n\<close>.
\<close>

definition slot_history :: "build_config \<Rightarrow> nat list \<Rightarrow> system \<Rightarrow> ptr \<Rightarrow> u32 list" where
  "slot_history cfg sched S a =
     map (\<lambda>k. mem (dev (run cfg (take k sched) S)) a) [0..<Suc (length sched)]"

definition alternation :: "nat \<Rightarrow> u32 list" where
  "alternation n = map (\<lambda>k. if even k then 0 else 1) [0..<n]"

text \<open>
  The compare-and-swap instructions a thread has issued itself, oldest first, and what
  they say about its progress: \<open>replay prog es\<close> follows a thread that has \<open>prog\<close> to run
  through the instructions \<open>es\<close>. Each must be an attempt of the loop the thread is in;
  the attempt that finds the awaited value ends the loop. The result is what is left to
  run, or \<open>None\<close> when \<open>es\<close> is not what a thread running \<open>prog\<close> issues.
\<close>

definition own_events :: "thread_ctx \<Rightarrow> system \<Rightarrow> cas_event list" where
  "own_events who S = filter (\<lambda>e. ev_issuer e = who) (cas_log (dev S))"

fun replay :: "spin list \<Rightarrow> cas_event list \<Rightarrow> spin list option" where
  "replay prog [] = Some prog"
| "replay [] (e # es) = None"
| "replay (l # ls) (e # es) =
     (if ev_addr e = spin_addr l \<and> ev_compare e = spin_compare l \<and> ev_val e = spin_val l
      then replay (if ev_old e \<noteq> spin_until l then l # ls else ls) es
      else None)"

text \<open>The slots a call reads or writes, and the orderings its two loops are built with.\<close>

definition touched :: "error + spin list \<Rightarrow> ptr set" where
  "touched r = (case r of Inl e \<Rightarrow> {} | Inr prog \<Rightarrow> set (map spin_addr prog))"

definition put_sem :: "MemOpSem \<Rightarrow> MemOpSem" where
  "put_sem Sem = (if Sem = Relaxed then Relaxed else Release)"

definition wait_sem :: "MemOpSem \<Rightarrow> MemOpSem" where
  "wait_sem Sem = (if Sem = Relaxed then Relaxed else Acquire)"

text \<open>The thread that \<open>sync_epoch\<close> creates for rank \<open>fst rt\<close> and thread number \<open>snd rt\<close>.\<close>

definition epoch_thread ::
  "MemOpSem \<Rightarrow> (nat \<Rightarrow> ptr) \<Rightarrow> nat \<Rightarrow> u32 \<Rightarrow> nat \<times> nat \<Rightarrow> thread" where
  "epoch_thread Sem signal_pads world_size b rt =
     \<lparr>th_ctx = \<lparr>gpu = fst rt, blockIdx_x = b, threadIdx_x = of_nat (snd rt)\<rparr>,
      th_prog = (if snd rt < world_size then
            [put_signal (put_sem Sem)
               (ptr_add (signal_pads (snd rt)) (ucast b * of_nat world_size + of_nat (fst rt))),
             wait_signal (wait_sem Sem)
               (ptr_add (signal_pads (fst rt)) (ucast b * of_nat world_size + of_nat (snd rt)))]
          else [])\<rparr>"

text \<open>Inputs the statements below are evaluated on.\<close>

definition sm90 :: build_config where
  "sm90 = \<lparr>USE_ROCM = False, CUDA_ARCH = Some 900, CUDART_VERSION = 12040\<rparr>"

definition sm70 :: build_config where
  "sm70 = \<lparr>USE_ROCM = False, CUDA_ARCH = Some 700, CUDART_VERSION = 12040\<rparr>"

definition rocm :: build_config where
  "rocm = \<lparr>USE_ROCM = True, CUDA_ARCH = None, CUDART_VERSION = 0\<rparr>"

definition thread00 :: thread_ctx where
  "thread00 = \<lparr>gpu = 0, blockIdx_x = 0, threadIdx_x = 0\<rparr>"

definition thread01 :: thread_ctx where
  "thread01 = \<lparr>gpu = 0, blockIdx_x = 0, threadIdx_x = 1\<rparr>"

definition thread02 :: thread_ctx where
  "thread02 = \<lparr>gpu = 0, blockIdx_x = 0, threadIdx_x = 2\<rparr>"

definition block1_thread01 :: thread_ctx where
  "block1_thread01 = \<lparr>gpu = 0, blockIdx_x = 1, threadIdx_x = 1\<rparr>"

definition cleared :: device where
  "cleared = \<lparr>mem = (\<lambda>_. 0), cas_log = []\<rparr>"

text \<open>A multicast hardware with nothing mapped: loads return 0, stores change nothing.\<close>

definition silent :: multicast_hw where
  "silent = \<lparr>hw_ld_reduce = (\<lambda>_ _ _ _. 0), hw_st = (\<lambda>_ _ _ d. d)\<rparr>"

definition one_pad_per_rank :: "nat \<Rightarrow> ptr" where
  "one_pad_per_rank q = Ptr q 0"

text \<open>
  A producer that puts twice and a consumer that waits twice on the slot \<open>Ptr 1 0\<close>.
\<close>

definition handshake :: system where
  "handshake =
     \<lparr>dev = cleared,
      threads =
        [\<lparr>th_ctx = \<lparr>gpu = 0, blockIdx_x = 0, threadIdx_x = 1\<rparr>,
          th_prog = [put_signal Release (Ptr 1 0), put_signal Release (Ptr 1 0)]\<rparr>,
         \<lparr>th_ctx = \<lparr>gpu = 1, blockIdx_x = 0, threadIdx_x = 0\<rparr>,
          th_prog = [wait_signal Acquire (Ptr 1 0), wait_signal Acquire (Ptr 1 0)]\<rparr>],
      fault = None\<rparr>"

text \<open>
  Two ranks, three threads in block 0 of each, all calling
  \<^verbatim>\<open>sync_remote_blocks<Relaxed>\<close> on cleared pads; and a schedule under which the second
  thread of rank 0 puts, finds its wait slot still clear once, and every thread gets
  through in the end. The threads are numbered rank by rank.
\<close>

definition two_ranks :: system where
  "two_ranks = sync_epoch Relaxed one_pad_per_rank 2 0 3 (\<lambda>_. 0)"

definition interleaving :: "nat list" where
  "interleaving = [1, 1, 0, 0, 3, 2, 1, 3, 4, 4, 5]"

section \<open>Auxiliary facts\<close>

subsection \<open>Words\<close>

lemma word_mod_zero_dvd:
  fixes v k :: "64 word"
  shows "(v mod k = 0) = (unat k dvd unat v)"
proof -
  have "(v mod k = 0) = (unat (v mod k) = 0)" by (simp add: unat_eq_zero)
  also have "\<dots> = (unat v mod unat k = 0)" by (simp add: unat_mod)
  also have "\<dots> = (unat k dvd unat v)" by (simp add: mod_eq_0_iff_dvd)
  finally show ?thesis .
qed

lemma ucast_down_add: "(ucast (a + b :: 64 word) :: 62 word) = ucast a + ucast b"
proof -
  have "take_bit 62 (x + y) = take_bit 62 (take_bit 64 x + take_bit 64 y)" for x y :: int
  proof -
    have "take_bit 62 (take_bit 64 x + take_bit 64 y)
        = take_bit 62 (take_bit 62 (take_bit 64 x) + take_bit 62 (take_bit 64 y))"
      by (simp only: take_bit_add)
    also have "\<dots> = take_bit 62 (take_bit 62 x + take_bit 62 y)"
      by (simp add: min_def)
    also have "\<dots> = take_bit 62 (x + y)" by (simp only: take_bit_add)
    finally show ?thesis by simp
  qed
  then show ?thesis by transfer simp
qed

lemma ucast_of_nat_62: "(ucast (of_nat k :: 64 word) :: 62 word) = of_nat k"
  by transfer (simp add: min_def)

lemma of_nat_62_inj:
  assumes "k < 2 ^ 62" and "k' < 2 ^ 62" and "(of_nat k :: 62 word) = of_nat k'"
  shows "k = k'"
proof -
  from assms(3) have "take_bit 62 k = take_bit 62 k'" by (simp add: word_of_nat_eq_iff)
  moreover from assms(1) have "take_bit 62 k = k" by (simp add: take_bit_nat_eq_self_iff)
  moreover from assms(2) have "take_bit 62 k' = k'" by (simp add: take_bit_nat_eq_self_iff)
  ultimately show ?thesis by simp
qed

subsection \<open>One step, and runs\<close>

lemma run_Nil: "run cfg [] S = S"
  by (simp add: run_def)

lemma run_snoc: "run cfg (sched @ [i]) S = step cfg (run cfg sched S) i"
  by (simp add: run_def)

lemma run_Cons: "run cfg (i # sched) S = run cfg sched (step cfg S i)"
  by (simp add: run_def)

lemma cas_result:
  "cas who cfg Sem addr compare val d = (Inl e, d') \<Longrightarrow> d' = d"
  "cas who cfg Sem addr compare val d = (Inr v, d') \<Longrightarrow>
     v = mem d addr \<and>
     (\<exists>opc. d' = d\<lparr>mem := (if mem d addr = compare then (mem d)(addr := val) else mem d),
                    cas_log := cas_log d @ [CasEvent who opc addr compare val (mem d addr)]\<rparr>)"
  by (auto simp add: cas_def CAS_ASM_def CUDA_KERNEL_ASSERT_def Let_def
        split: if_splits MemOpSem.splits)

lemma step_cases:
  obtains
    (idle) "step cfg S i = S"
  | (abort) e where "fault S = None" and "i < length (threads S)"
      and "step cfg S i = S\<lparr>fault := Some e\<rparr>"
  | (attempt) l rest opc where "fault S = None" and "i < length (threads S)"
      and "th_prog (threads S ! i) = l # rest"
      and "step cfg S i =
             S\<lparr>dev := (dev S)\<lparr>mem := (if mem (dev S) (spin_addr l) = spin_compare l
                                      then (mem (dev S))(spin_addr l := spin_val l)
                                      else mem (dev S)),
                              cas_log := cas_log (dev S) @
                                [CasEvent (th_ctx (threads S ! i)) opc (spin_addr l)
                                   (spin_compare l) (spin_val l) (mem (dev S) (spin_addr l))]\<rparr>,
               threads := (threads S)
                 [i := (threads S ! i)\<lparr>th_prog :=
                    (if mem (dev S) (spin_addr l) \<noteq> spin_until l then l # rest else rest)\<rparr>]\<rparr>"
proof (cases "fault S \<noteq> None \<or> length (threads S) \<le> i")
  case True
  then have "step cfg S i = S" by (simp add: step_def)
  then show ?thesis by (rule idle)
next
  case False
  then have f: "fault S = None" and i: "i < length (threads S)" by auto
  show ?thesis
  proof (cases "th_prog (threads S ! i)")
    case Nil
    with False have "step cfg S i = S" by (simp add: step_def)
    then show ?thesis by (rule idle)
  next
    case (Cons l rest)
    obtain r d' where c: "cas (th_ctx (threads S ! i)) cfg (spin_sem l) (spin_addr l)
        (spin_compare l) (spin_val l) (dev S) = (r, d')"
      by (cases "cas (th_ctx (threads S ! i)) cfg (spin_sem l) (spin_addr l)
        (spin_compare l) (spin_val l) (dev S)") auto
    show ?thesis
    proof (cases r)
      case (Inl e)
      with c have "d' = dev S" by (auto dest: cas_result(1))
      with c Inl Cons False have "step cfg S i = S\<lparr>fault := Some e\<rparr>"
        by (simp add: step_def spin_iter_def)
      with f i show ?thesis by (rule abort)
    next
      case (Inr v)
      with c obtain opc where v: "v = mem (dev S) (spin_addr l)"
        and d': "d' = (dev S)\<lparr>mem := (if mem (dev S) (spin_addr l) = spin_compare l
                                      then (mem (dev S))(spin_addr l := spin_val l)
                                      else mem (dev S)),
                              cas_log := cas_log (dev S) @
                                [CasEvent (th_ctx (threads S ! i)) opc (spin_addr l)
                                   (spin_compare l) (spin_val l) (mem (dev S) (spin_addr l))]\<rparr>"
        by (auto dest: cas_result(2))
      from c Inr Cons False v d' have "step cfg S i =
             S\<lparr>dev := (dev S)\<lparr>mem := (if mem (dev S) (spin_addr l) = spin_compare l
                                      then (mem (dev S))(spin_addr l := spin_val l)
                                      else mem (dev S)),
                              cas_log := cas_log (dev S) @
                                [CasEvent (th_ctx (threads S ! i)) opc (spin_addr l)
                                   (spin_compare l) (spin_val l) (mem (dev S) (spin_addr l))]\<rparr>,
               threads := (threads S)
                 [i := (threads S ! i)\<lparr>th_prog :=
                    (if mem (dev S) (spin_addr l) \<noteq> spin_until l then l # rest else rest)\<rparr>]\<rparr>"
        by (simp add: step_def spin_iter_def)
      with f i Cons show ?thesis by (rule attempt)
    qed
  qed
qed

lemma run_induct:
  assumes "P S" and "\<And>T i. P T \<Longrightarrow> P (step cfg T i)"
  shows "P (run cfg sched S)"
  using assms(1)
proof (induction sched arbitrary: S)
  case Nil
  then show ?case by (simp add: run_Nil)
next
  case (Cons i sched)
  from Cons.prems have "P (step cfg S i)" by (rule assms(2))
  then have "P (run cfg sched (step cfg S i))" by (rule Cons.IH)
  then show ?case by (simp add: run_Cons)
qed

lemma step_ctx: "map th_ctx (threads (step cfg S i)) = map th_ctx (threads S)"
proof (cases rule: step_cases [of cfg S i])
  case idle
  then show ?thesis by simp
next
  case (abort e)
  then show ?thesis by simp
next
  case (attempt l rest opc)
  then show ?thesis by (simp add: map_update list_update_same_conv)
qed

lemma run_ctx: "map th_ctx (threads (run cfg sched S)) = map th_ctx (threads S)"
  by (rule run_induct [where P = "\<lambda>T. map th_ctx (threads T) = map th_ctx (threads S)"])
     (simp_all add: step_ctx)

lemma run_length: "length (threads (run cfg sched S)) = length (threads S)"
  using run_ctx [of cfg sched S] by (metis length_map)

subsection \<open>What a step does to a slot\<close>

lemma signals_only_head:
  assumes "signals_only S" and "i < length (threads S)"
    and "th_prog (threads S ! i) = l # rest"
  shows "is_put l \<or> is_wait l"
    and "list_all (\<lambda>l. is_put l \<or> is_wait l) rest"
proof -
  from assms(1,2) have "list_all (\<lambda>l. is_put l \<or> is_wait l) (th_prog (threads S ! i))"
    by (simp add: signals_only_def list_all_length)
  with assms(3) show "is_put l \<or> is_wait l"
    and "list_all (\<lambda>l. is_put l \<or> is_wait l) rest" by simp_all
qed

lemma step_signals_only: "signals_only S \<Longrightarrow> signals_only (step cfg S i)"
proof (cases rule: step_cases [of cfg S i])
  case idle
  then show "signals_only S \<Longrightarrow> signals_only (step cfg S i)" by simp
next
  case (abort e)
  then show "signals_only S \<Longrightarrow> signals_only (step cfg S i)" by (simp add: signals_only_def)
next
  case (attempt l rest opc)
  assume so: "signals_only S"
  from so attempt(2,3) have "list_all (\<lambda>l. is_put l \<or> is_wait l) (l # rest)"
    using signals_only_head [of S i l rest] by simp
  with so attempt show "signals_only (step cfg S i)"
    by (auto simp add: signals_only_def list_all_iff dest!: set_update_subset_insert [THEN subsetD])
qed

lemma run_signals_only: "signals_only S \<Longrightarrow> signals_only (run cfg sched S)"
  by (rule run_induct [where P = signals_only]) (simp_all add: step_signals_only)

lemma sum_list_map_update:
  fixes f :: "'a \<Rightarrow> nat"
  shows "i < length xs \<Longrightarrow>
    sum_list (map f (xs[i := y])) + f (xs ! i) = sum_list (map f xs) + f y"
proof (induction xs arbitrary: i)
  case Nil
  then show ?case by simp
next
  case (Cons x xs)
  then show ?case by (cases i) auto
qed

lemma pending_pop:
  assumes "i < length (threads S)" and "th_prog (threads S ! i) = l # rest"
    and "threads T = (threads S)[i := (threads S ! i)\<lparr>th_prog := rest\<rparr>]"
  shows "pending kind a T + (if kind l \<and> spin_addr l = a then 1 else 0) = pending kind a S"
  using sum_list_map_update [OF assms(1),
      of "\<lambda>t. length (filter (\<lambda>l. kind l \<and> spin_addr l = a) (th_prog t))"
         "(threads S ! i)\<lparr>th_prog := rest\<rparr>"] assms(2,3)
  by (auto simp add: pending_def)

lemma pending_keep:
  assumes "i < length (threads S)" and "th_prog (threads S ! i) = l # rest"
    and "threads T = (threads S)[i := (threads S ! i)\<lparr>th_prog := l # rest\<rparr>]"
  shows "pending kind a T = pending kind a S"
proof -
  from assms(2) have "(threads S ! i)\<lparr>th_prog := l # rest\<rparr> = threads S ! i"
    by (metis thread.surjective thread.update_convs(2))
  with assms(1,3) have "threads T = threads S" by simp
  then show ?thesis by (simp add: pending_def)
qed

lemma put_not_wait: "is_put l \<Longrightarrow> \<not> is_wait l"
  by (auto simp add: is_put_def is_wait_def)

lemma step_facts:
  assumes "signals_only S"
  shows "balance a (step cfg S i) = balance a S"
    and "(\<forall>b. mem (dev S) b = 0 \<or> mem (dev S) b = 1) \<Longrightarrow>
           mem (dev (step cfg S i)) a = 0 \<or> mem (dev (step cfg S i)) a = 1"
    and "pending is_put a (step cfg S i) + pending is_wait a (step cfg S i)
           + (if mem (dev (step cfg S i)) a = mem (dev S) a then 0 else 1)
         = pending is_put a S + pending is_wait a S"
    and "mem (dev (step cfg S i)) a \<noteq> mem (dev S) a \<Longrightarrow>
           (mem (dev S) a = 0 \<and> mem (dev (step cfg S i)) a = 1)
           \<or> (mem (dev S) a = 1 \<and> mem (dev (step cfg S i)) a = 0)"
proof -
  have "balance a (step cfg S i) = balance a S
    \<and> ((\<forall>b. mem (dev S) b = 0 \<or> mem (dev S) b = 1) \<longrightarrow>
           mem (dev (step cfg S i)) a = 0 \<or> mem (dev (step cfg S i)) a = 1)
    \<and> pending is_put a (step cfg S i) + pending is_wait a (step cfg S i)
           + (if mem (dev (step cfg S i)) a = mem (dev S) a then 0 else 1)
         = pending is_put a S + pending is_wait a S
    \<and> (mem (dev (step cfg S i)) a \<noteq> mem (dev S) a \<longrightarrow>
           (mem (dev S) a = 0 \<and> mem (dev (step cfg S i)) a = 1)
           \<or> (mem (dev S) a = 1 \<and> mem (dev (step cfg S i)) a = 0))"
  proof (cases rule: step_cases [of cfg S i])
    case idle
    then show ?thesis by simp
  next
    case (abort e)
    then show ?thesis by (simp add: balance_def pending_def)
  next
    case (attempt l rest opc)
    from assms attempt(2,3) have kind: "is_put l \<or> is_wait l"
      by (rule signals_only_head)
    show ?thesis
    proof (cases "mem (dev S) (spin_addr l) = spin_until l")
      case True
      with attempt(4) have th: "threads (step cfg S i)
          = (threads S)[i := (threads S ! i)\<lparr>th_prog := rest\<rparr>]" by simp
      note pp = pending_pop [OF attempt(2,3) th, of is_put a]
      note pw = pending_pop [OF attempt(2,3) th, of is_wait a]
      from attempt(4) True have m: "mem (dev (step cfg S i))
          = (if spin_until l = spin_compare l
             then (mem (dev S))(spin_addr l := spin_val l) else mem (dev S))" by simp
      from kind show ?thesis
      proof
        assume p: "is_put l"
        then have "\<not> is_wait l" by (rule put_not_wait)
        with p pp pw m True show ?thesis
          by (auto simp add: balance_def is_put_def)
      next
        assume w: "is_wait l"
        then have "\<not> is_put l" using put_not_wait by blast
        with w pp pw m True show ?thesis
          by (auto simp add: balance_def is_wait_def)
      qed
    next
      case False
      with attempt(4) have th: "threads (step cfg S i)
          = (threads S)[i := (threads S ! i)\<lparr>th_prog := l # rest\<rparr>]" by simp
      note pp = pending_keep [OF attempt(2,3) th, of is_put a]
      note pw = pending_keep [OF attempt(2,3) th, of is_wait a]
      from kind False have "mem (dev S) (spin_addr l) \<noteq> spin_compare l"
        by (auto simp add: is_put_def is_wait_def)
      with attempt(4) have m: "mem (dev (step cfg S i)) = mem (dev S)" by simp
      with pp pw show ?thesis by (simp add: balance_def)
    qed
  qed
  then show "balance a (step cfg S i) = balance a S"
    and "(\<forall>b. mem (dev S) b = 0 \<or> mem (dev S) b = 1) \<Longrightarrow>
           mem (dev (step cfg S i)) a = 0 \<or> mem (dev (step cfg S i)) a = 1"
    and "pending is_put a (step cfg S i) + pending is_wait a (step cfg S i)
           + (if mem (dev (step cfg S i)) a = mem (dev S) a then 0 else 1)
         = pending is_put a S + pending is_wait a S"
    and "mem (dev (step cfg S i)) a \<noteq> mem (dev S) a \<Longrightarrow>
           (mem (dev S) a = 0 \<and> mem (dev (step cfg S i)) a = 1)
           \<or> (mem (dev S) a = 1 \<and> mem (dev (step cfg S i)) a = 0)"
    by blast+
qed

lemma run_balance: "signals_only S \<Longrightarrow> balance a (run cfg sched S) = balance a S"
  by (rule run_induct [where P = "\<lambda>T. signals_only T \<and> balance a T = balance a S",
        THEN conjunct2])
     (simp_all add: step_signals_only step_facts(1))

lemma run_mem01:
  assumes "signals_only S" and "\<forall>b. mem (dev S) b = 0 \<or> mem (dev S) b = 1"
  shows "mem (dev (run cfg sched S)) a = 0 \<or> mem (dev (run cfg sched S)) a = 1"
proof -
  let ?P = "\<lambda>T. signals_only T \<and> (\<forall>b. mem (dev T) b = 0 \<or> mem (dev T) b = 1)"
  have "?P (run cfg sched S)"
  proof (rule run_induct [where P = ?P])
    from assms show "?P S" by simp
  next
    fix T i
    assume "?P T"
    then show "?P (step cfg T i)" by (simp add: step_signals_only step_facts(2))
  qed
  then show ?thesis by blast
qed

lemma finished_pending: "finished S \<Longrightarrow> pending kind a S = 0"
  by (auto simp add: finished_def pending_def list_all_iff)

lemma finished_restores:
  assumes "signals_only S" and "pending is_put a S = pending is_wait a S"
    and "finished (run cfg sched S)"
  shows "mem (dev (run cfg sched S)) a = mem (dev S) a"
proof -
  from assms(1) have "balance a (run cfg sched S) = balance a S" by (rule run_balance)
  with assms(2) finished_pending [OF assms(3), of is_put a]
    finished_pending [OF assms(3), of is_wait a]
  have "int (unat (mem (dev (run cfg sched S)) a)) = int (unat (mem (dev S) a))"
    unfolding balance_def by linarith
  then show ?thesis by (simp add: word_uint_eq_iff)
qed

subsection \<open>The values a slot goes through\<close>

lemma slot_history_snoc:
  "slot_history cfg (sched @ [i]) S a
     = slot_history cfg sched S a @ [mem (dev (run cfg (sched @ [i]) S)) a]"
  by (simp add: slot_history_def)

lemma slot_history_last:
  "last (slot_history cfg sched S a) = mem (dev (run cfg sched S)) a"
  by (simp add: slot_history_def)

lemma slot_history_nonempty: "slot_history cfg sched S a \<noteq> []"
  by (simp add: slot_history_def)

lemma remdups_adj_snoc:
  assumes "xs \<noteq> []"
  shows "remdups_adj (xs @ [y]) = remdups_adj xs @ (if last xs = y then [] else [y])"
proof -
  from assms have xs: "butlast xs @ [last xs] = xs" by simp
  have "remdups_adj (butlast xs @ [last xs, y])
      = remdups_adj (butlast xs @ [last xs]) @ (if last xs = y then [] else [y])"
    by (rule remdups_adj_append_two)
  moreover have "butlast xs @ [last xs, y] = xs @ [y]" using xs by (metis append_Cons append_Nil append_assoc)
  ultimately show ?thesis using xs by simp
qed

lemma length_alternation: "length (alternation n) = n"
  by (simp add: alternation_def)

lemma alternation_Suc: "alternation (Suc n) = alternation n @ [if even n then 0 else 1]"
  by (simp add: alternation_def)

lemma alternation_extend:
  assumes "0 < n" and "last (alternation n) = v"
    and "(v = 0 \<and> v' = 1) \<or> (v = 1 \<and> v' = 0)"
  shows "alternation n @ [v'] = alternation (Suc n)"
proof -
  from assms(1) obtain m where n: "n = Suc m" by (cases n) auto
  with assms(2) have "v = (if even m then 0 else 1)" by (simp add: alternation_Suc)
  with assms(3) n show ?thesis by (auto simp add: alternation_Suc split: if_splits)
qed

lemma history_alternates:
  assumes "signals_only S" and "mem (dev S) a = 0"
  shows "remdups_adj (slot_history cfg sched S a)
           = alternation (length (remdups_adj (slot_history cfg sched S a)))
       \<and> length (remdups_adj (slot_history cfg sched S a))
           + pending is_put a (run cfg sched S) + pending is_wait a (run cfg sched S)
         = Suc (pending is_put a S + pending is_wait a S)"
proof (induction sched rule: rev_induct)
  case Nil
  from assms(2) show ?case by (simp add: slot_history_def run_Nil alternation_def)
next
  case (snoc i sched)
  let ?T = "run cfg sched S"
  let ?H = "slot_history cfg sched S a"
  let ?v = "mem (dev (step cfg ?T i)) a"
  have so: "signals_only ?T" using assms(1) by (rule run_signals_only)
  have H': "remdups_adj (slot_history cfg (sched @ [i]) S a)
      = remdups_adj ?H @ (if mem (dev ?T) a = ?v then [] else [?v])"
    by (simp add: slot_history_snoc run_snoc remdups_adj_snoc slot_history_nonempty
        slot_history_last)
  note cnt = step_facts(3) [OF so, of a cfg i]
  show ?case
  proof (cases "?v = mem (dev ?T) a")
    case True
    with H' cnt snoc.IH show ?thesis by (simp add: run_snoc)
  next
    case False
    then have flip: "(mem (dev ?T) a = 0 \<and> ?v = 1) \<or> (mem (dev ?T) a = 1 \<and> ?v = 0)"
      by (rule step_facts(4) [OF so])
    have pos: "0 < length (remdups_adj ?H)"
      by (simp add: slot_history_nonempty)
    have "last (alternation (length (remdups_adj ?H))) = mem (dev ?T) a"
      using snoc.IH by (metis last_remdups_adj slot_history_last)
    from alternation_extend [OF pos this flip] snoc.IH
    have "remdups_adj ?H @ [?v] = alternation (Suc (length (remdups_adj ?H)))" by simp
    with H' False cnt snoc.IH show ?thesis by (simp add: run_snoc length_alternation)
  qed
qed

subsection \<open>A thread and its own instructions\<close>

lemma replay_snoc:
  "replay prog (es @ [e]) =
     (case replay prog es of
        None \<Rightarrow> None
      | Some [] \<Rightarrow> None
      | Some (l # ls) \<Rightarrow>
          (if ev_addr e = spin_addr l \<and> ev_compare e = spin_compare l \<and> ev_val e = spin_val l
           then Some (if ev_old e \<noteq> spin_until l then l # ls else ls)
           else None))"
  by (induction prog es rule: replay.induct) (auto split: list.splits)

lemma step_replay:
  assumes "distinct (map th_ctx (threads S))" and "k < length (threads S)"
    and "replay p0 (own_events (th_ctx (threads S ! k)) S) = Some (th_prog (threads S ! k))"
  shows "replay p0 (own_events (th_ctx (threads S ! k)) (step cfg S i))
           = Some (th_prog (threads (step cfg S i) ! k))"
proof (cases rule: step_cases [of cfg S i])
  case idle
  with assms(3) show ?thesis by simp
next
  case (abort e)
  with assms(3) show ?thesis by (simp add: own_events_def)
next
  case (attempt l rest opc)
  show ?thesis
  proof (cases "k = i")
    case True
    with attempt assms(2,3) show ?thesis
      by (simp add: own_events_def replay_snoc)
  next
    case False
    with assms(1,2) attempt(2) have "th_ctx (threads S ! k) \<noteq> th_ctx (threads S ! i)"
      by (metis distinct_conv_nth length_map nth_map)
    with attempt False assms(3) show ?thesis
      by (simp add: own_events_def)
  qed
qed

lemma run_replay:
  assumes "distinct (map th_ctx (threads S))" and "k < length (threads S)"
    and "own_events (th_ctx (threads S ! k)) S = []"
  shows "replay (th_prog (threads S ! k)) (own_events (th_ctx (threads S ! k)) (run cfg sched S))
           = Some (th_prog (threads (run cfg sched S) ! k))"
proof -
  let ?c = "th_ctx (threads S ! k)"
  let ?P = "\<lambda>T. map th_ctx (threads T) = map th_ctx (threads S)
     \<and> replay (th_prog (threads S ! k)) (own_events ?c T) = Some (th_prog (threads T ! k))"
  have "?P (run cfg sched S)"
  proof (rule run_induct [where P = ?P])
    from assms(3) show "?P S" by simp
  next
    fix T i
    assume T: "?P T"
    then have ctx: "map th_ctx (threads T) = map th_ctx (threads S)" by simp
    then have len: "length (threads T) = length (threads S)" by (metis length_map)
    from ctx assms(2) len have c: "th_ctx (threads T ! k) = ?c" by (metis nth_map)
    from assms(1) ctx have d: "distinct (map th_ctx (threads T))" by simp
    from assms(2) len have k: "k < length (threads T)" by simp
    from T c have "replay (th_prog (threads S ! k)) (own_events (th_ctx (threads T ! k)) T)
        = Some (th_prog (threads T ! k))" by simp
    from step_replay [OF d k this, of cfg i] c ctx show "?P (step cfg T i)"
      by (simp add: step_ctx)
  qed
  then show ?thesis by simp
qed

subsection \<open>The threads of a synchronization epoch\<close>

lemma sync_remote_blocks_prog:
  assumes "Sem = Relaxed \<or> Sem = AcqRel"
  shows "sync_remote_blocks Sem who signal_pads rank world_size =
     Inr (if ucast (threadIdx_x who) < world_size then
            [put_signal (put_sem Sem)
               (ptr_add (signal_pads (unat (threadIdx_x who)))
                        (ucast (blockIdx_x who) * world_size + rank)),
             wait_signal (wait_sem Sem)
               (ptr_add (signal_pads (unat rank))
                        (ucast (blockIdx_x who) * world_size + ucast (threadIdx_x who)))]
          else [])"
  using assms
  by (auto simp add: put_sem_def wait_sem_def ptr_add_def ucast_down_add add.assoc Let_def)

lemma small_words:
  assumes "n \<le> 1024"
  shows "unat (of_nat n :: 32 word) = n" and "unat (of_nat n :: 64 word) = n"
    and "(ucast (of_nat n :: 32 word) :: 64 word) = of_nat n"
proof -
  from assms have a: "n < 2 ^ 32" and b: "n < 2 ^ 64" by simp_all
  from a show u32: "unat (of_nat n :: 32 word) = n" by (simp add: unat_of_nat)
  from b show "unat (of_nat n :: 64 word) = n" by (simp add: unat_of_nat)
  have "(ucast (of_nat n :: 32 word) :: 64 word) = of_nat (unat (of_nat n :: 32 word))"
    by simp
  with u32 show "(ucast (of_nat n :: 32 word) :: 64 word) = of_nat n" by simp
qed

lemma small_word_less:
  assumes "m \<le> 1024" and "n \<le> 1024"
  shows "((of_nat m :: 64 word) < of_nat n) = (m < n)"
  using assms small_words(2) [of m] small_words(2) [of n] by (simp add: word_less_nat_alt)

lemma sync_call_epoch_thread:
  assumes "Sem = Relaxed \<or> Sem = AcqRel" and "r \<le> 1024" and "t \<le> 1024" and "ws \<le> 1024"
  shows "sync_call Sem signal_pads (of_nat r) (of_nat ws)
           \<lparr>gpu = r, blockIdx_x = b, threadIdx_x = of_nat t\<rparr> S
         = S\<lparr>threads := threads S @ [epoch_thread Sem signal_pads ws b (r, t)]\<rparr>"
  using assms(2-)
  by (simp add: sync_call_def sync_remote_blocks_prog [OF assms(1)] epoch_thread_def
      small_words small_word_less)

lemma foldl_sync_call:
  assumes "Sem = Relaxed \<or> Sem = AcqRel" and "ws \<le> 1024"
    and "\<forall>(r, t)\<in>set xs. r \<le> 1024 \<and> t \<le> 1024"
  shows "foldl (\<lambda>S (r, t). sync_call Sem signal_pads (of_nat r) (of_nat ws)
                         \<lparr>gpu = r, blockIdx_x = b, threadIdx_x = of_nat t\<rparr> S) S0 xs
         = S0\<lparr>threads := threads S0 @ map (epoch_thread Sem signal_pads ws b) xs\<rparr>"
  using assms(3)
proof (induction xs arbitrary: S0)
  case Nil
  then show ?case by simp
next
  case (Cons x xs)
  obtain r t where x: "x = (r, t)" by (cases x)
  with Cons.prems have rt: "r \<le> 1024" "t \<le> 1024" by auto
  from Cons.prems have "\<forall>(r, t)\<in>set xs. r \<le> 1024 \<and> t \<le> 1024" by simp
  note IH = Cons.IH [OF this]
  show ?case
    by (simp add: x sync_call_epoch_thread [OF assms(1) rt assms(2)] IH)
qed

lemma sync_epoch_eq:
  assumes "Sem = Relaxed \<or> Sem = AcqRel" and "ws \<le> bd" and "bd \<le> max_num_threads_per_block"
  shows "sync_epoch Sem signal_pads ws b bd m0
         = \<lparr>dev = \<lparr>mem = m0, cas_log = []\<rparr>,
            threads = map (epoch_thread Sem signal_pads ws b) (List.product [0..<ws] [0..<bd]),
            fault = None\<rparr>"
proof -
  from assms(2,3) have ws: "ws \<le> 1024" and bd: "bd \<le> 1024"
    by (simp_all add: max_num_threads_per_block_def)
  then have "\<forall>(r, t)\<in>set (List.product [0..<ws] [0..<bd]). r \<le> 1024 \<and> t \<le> 1024"
    by auto
  from foldl_sync_call [OF assms(1) ws this] show ?thesis
    by (simp add: sync_epoch_def)
qed

lemma sum_list_product:
  fixes f :: "'a \<times> 'b \<Rightarrow> nat"
  shows "sum_list (map f (List.product xs ys))
         = sum_list (map (\<lambda>x. sum_list (map (\<lambda>y. f (x, y)) ys)) xs)"
  by (induction xs) (simp_all add: comp_def)

lemma sum_list_upt: "sum_list (map f [0..<n]) = (\<Sum>k<n. (f k :: nat))"
  by (induction n) simp_all

lemma epoch_pending:
  "pending kind a \<lparr>dev = d, threads = map (epoch_thread Sem signal_pads ws b)
                      (List.product [0..<ws] [0..<bd]), fault = f\<rparr>
   = (\<Sum>r<ws. \<Sum>t<bd. length (filter (\<lambda>l. kind l \<and> spin_addr l = a)
        (th_prog (epoch_thread Sem signal_pads ws b (r, t)))))"
  by (simp add: pending_def comp_def sum_list_product sum_list_upt)

lemma sum_restrict:
  fixes g :: "nat \<Rightarrow> nat"
  assumes "ws \<le> bd"
  shows "(\<Sum>t<bd. if t < ws then g t else 0) = (\<Sum>t<ws. g t)"
proof -
  have "(\<Sum>t<bd. if t < ws then g t else 0) = (\<Sum>t\<in>{..<bd} \<inter> {t. t < ws}. g t)"
    by (simp add: sum.inter_restrict)
  moreover from assms have "{..<bd} \<inter> {t. t < ws} = {..<ws}" by auto
  ultimately show ?thesis by simp
qed

lemma epoch_matched:
  assumes "ws \<le> bd"
  shows "pending is_put a \<lparr>dev = d, threads = map (epoch_thread Sem signal_pads ws b)
                      (List.product [0..<ws] [0..<bd]), fault = f\<rparr>
       = pending is_wait a \<lparr>dev = d, threads = map (epoch_thread Sem signal_pads ws b)
                      (List.product [0..<ws] [0..<bd]), fault = f\<rparr>"
proof -
  let ?X = "\<lambda>r t. ptr_add (signal_pads t) (ucast b * of_nat ws + of_nat r)"
  let ?g = "\<lambda>r t. if ?X r t = a then 1 else 0 :: nat"
  have p: "length (filter (\<lambda>l. is_put l \<and> spin_addr l = a)
        (th_prog (epoch_thread Sem signal_pads ws b (r, t))))
      = (if t < ws then ?g r t else 0)" for r t
    by (simp add: epoch_thread_def put_signal_def wait_signal_def is_put_def)
  have w: "length (filter (\<lambda>l. is_wait l \<and> spin_addr l = a)
        (th_prog (epoch_thread Sem signal_pads ws b (r, t))))
      = (if t < ws then ?g t r else 0)" for r t
    by (simp add: epoch_thread_def put_signal_def wait_signal_def is_wait_def)
  have "(\<Sum>r<ws. \<Sum>t<bd. if t < ws then ?g r t else 0) = (\<Sum>r<ws. \<Sum>t<ws. ?g r t)"
    using sum_restrict [OF assms] by simp
  also have "\<dots> = (\<Sum>t<ws. \<Sum>r<ws. ?g r t)" by (rule sum.swap)
  also have "\<dots> = (\<Sum>r<ws. \<Sum>t<bd. if t < ws then ?g t r else 0)"
    using sum_restrict [OF assms] by simp
  finally show ?thesis by (simp only: epoch_pending p w)
qed

lemma epoch_signals_only:
  "signals_only \<lparr>dev = d, threads = map (epoch_thread Sem signal_pads ws b) xs, fault = f\<rparr>"
  by (auto simp add: signals_only_def list_all_iff epoch_thread_def put_signal_def
      wait_signal_def is_put_def is_wait_def)

lemma epoch_distinct:
  assumes "bd \<le> 1024"
  shows "distinct (map th_ctx (map (epoch_thread Sem signal_pads ws b)
           (List.product [0..<ws] [0..<bd])))"
proof -
  have "inj_on (th_ctx \<circ> epoch_thread Sem signal_pads ws b)
          (set (List.product [0..<ws] [0..<bd]))"
  proof (rule inj_onI)
    fix x y
    assume x: "x \<in> set (List.product [0..<ws] [0..<bd])"
      and y: "y \<in> set (List.product [0..<ws] [0..<bd])"
      and e: "(th_ctx \<circ> epoch_thread Sem signal_pads ws b) x
              = (th_ctx \<circ> epoch_thread Sem signal_pads ws b) y"
    from x y assms have "snd x \<le> 1024" "snd y \<le> 1024" by auto
    then have "unat (of_nat (snd x) :: 32 word) = snd x"
      and "unat (of_nat (snd y) :: 32 word) = snd y" by (simp_all add: small_words)
    moreover from e have "fst x = fst y"
      and "(of_nat (snd x) :: 32 word) = of_nat (snd y)" by (simp_all add: epoch_thread_def)
    ultimately show "x = y" by (metis prod_eqI)
  qed
  moreover have "distinct (List.product [0..<ws] [0..<bd])" by (simp add: distinct_product)
  ultimately show ?thesis by (simp add: distinct_map)
qed

subsection \<open>One iteration of a put or a wait\<close>

lemma step_signal:
  assumes "fault S = None" and "i < length (threads S)"
    and "th_prog (threads S ! i) = Spin Sem a c v c # rest"
    and "\<not> cas_unsupported cfg" and "Sem \<noteq> AcqRel"
  shows "th_prog (threads (step cfg S i) ! i)
           = (if mem (dev S) a = c then rest else Spin Sem a c v c # rest)"
    and "mem (dev (step cfg S i)) = (if mem (dev S) a = c then (mem (dev S))(a := v) else mem (dev S))"
    and "\<exists>opc. cas_log (dev (step cfg S i))
           = cas_log (dev S) @ [CasEvent (th_ctx (threads S ! i)) opc a c v (mem (dev S) a)]"
    and "fault (step cfg S i) = None"
    and "j \<noteq> i \<Longrightarrow> threads (step cfg S i) ! j = threads S ! j"
  using assms
  by (cases Sem; simp add: step_def spin_iter_def cas_def CAS_ASM_def Let_def)+

lemma step_unsupported:
  assumes "fault S = None" and "i < length (threads S)"
    and "th_prog (threads S ! i) = l # rest" and "cas_unsupported cfg"
  shows "step cfg S i = S\<lparr>fault := Some KernelAssertFailed\<rparr>"
  using assms
  by (simp add: step_def spin_iter_def cas_def CUDA_KERNEL_ASSERT_def)

lemma step_spin_again:
  assumes "fault S = None" and "i < length (threads S)"
    and "th_prog (threads S ! i) = Spin Sem a c v c # rest"
    and "\<not> cas_unsupported cfg" and "Sem \<noteq> AcqRel" and "mem (dev S) a \<noteq> c"
  shows "fault (step cfg S i) = None" and "threads (step cfg S i) = threads S"
    and "mem (dev (step cfg S i)) = mem (dev S)"
proof -
  from assms(3) have "(threads S ! i)\<lparr>th_prog := Spin Sem a c v c # rest\<rparr> = threads S ! i"
    by (metis thread.surjective thread.update_convs(2))
  then have same: "(threads S)[i := (threads S ! i)\<lparr>th_prog := Spin Sem a c v c # rest\<rparr>]
      = threads S" by simp
  from assms show "fault (step cfg S i) = None"
    by (simp add: step_signal(4))
  from assms show "mem (dev (step cfg S i)) = mem (dev S)"
    by (simp add: step_signal(2))
  from assms same show "threads (step cfg S i) = threads S"
    by (cases Sem; simp add: step_def spin_iter_def cas_def CAS_ASM_def Let_def)
qed

lemma spin_alone:
  assumes "fault S = None" and "i < length (threads S)"
    and "th_prog (threads S ! i) = Spin Sem a c v c # rest"
    and "\<not> cas_unsupported cfg" and "Sem \<noteq> AcqRel" and "mem (dev S) a \<noteq> c"
  shows "fault (run cfg (replicate n i) S) = None
       \<and> threads (run cfg (replicate n i) S) = threads S
       \<and> mem (dev (run cfg (replicate n i) S)) = mem (dev S)"
proof (induction n)
  case 0
  from assms(1) show ?case by (simp add: run_Nil)
next
  case (Suc n)
  let ?T = "run cfg (replicate n i) S"
  have "replicate (Suc n) i = replicate n i @ [i]"
    by (simp add: replicate_append_same)
  then have r: "run cfg (replicate (Suc n) i) S = step cfg ?T i"
    by (simp only: run_snoc)
  from Suc assms have h: "fault ?T = None" "i < length (threads ?T)"
    "th_prog (threads ?T ! i) = Spin Sem a c v c # rest" "mem (dev ?T) a \<noteq> c"
    by simp_all
  from step_spin_again [OF h(1,2,3) assms(4,5) h(4)] Suc
  have "fault (step cfg ?T i) = None \<and> threads (step cfg ?T i) = threads S
       \<and> mem (dev (step cfg ?T i)) = mem (dev S)" by simp
  then show ?case by (simp only: r)
qed

subsection \<open>Slot indices\<close>

lemma unat_ucast_32_64: "unat (ucast (b :: 32 word) :: 64 word) = unat b"
proof -
  have "unat b < 2 ^ 32" using unsigned_less [of b, where 'a = nat] by simp
  then have "unat b < 2 ^ 64" by simp
  then show ?thesis by (simp add: unsigned_ucast_eq take_bit_nat_eq_self_iff)
qed

lemma unat_index:
  fixes c ws x :: "64 word"
  assumes "unat c * unat ws + unat x < 2 ^ 64"
  shows "unat (c * ws + x) = unat c * unat ws + unat x"
proof -
  from assms have "unat c * unat ws < 2 ^ 64" by simp
  then have m: "unat (c * ws) = unat c * unat ws"
    by (simp add: unat_word_ariths)
  with assms show ?thesis by (simp add: unat_word_ariths)
qed

lemma unat_slot_index:
  fixes b :: "32 word" and ws x :: "64 word"
  assumes "x < ws" and "(unat b + 1) * unat ws \<le> 2 ^ 64"
  shows "unat (ucast b * ws + x) = unat b * unat ws + unat x"
    and "unat b * unat ws + unat x < (unat b + 1) * unat ws"
proof -
  from assms(1) have x: "unat x < unat ws" by (simp add: word_less_nat_alt)
  then show lt: "unat b * unat ws + unat x < (unat b + 1) * unat ws" by simp
  with assms(2) have "unat (ucast b :: 64 word) * unat ws + unat x < 2 ^ 64"
    by (simp add: unat_ucast_32_64)
  then show "unat (ucast b * ws + x) = unat b * unat ws + unat x"
    by (simp add: unat_index unat_ucast_32_64)
qed

lemma slots_fit:
  fixes b :: "32 word" and world_size :: "64 word"
  assumes "unat world_size \<le> 2 ^ 30"
  shows "4 * ((unat b + 1) * unat world_size) \<le> 2 ^ 64"
proof -
  have "unat b < 2 ^ 32" using unsigned_less [of b, where 'a = nat] by simp
  then have "unat b + 1 \<le> 2 ^ 32" by simp
  from this assms have "(unat b + 1) * unat world_size \<le> 2 ^ 32 * 2 ^ 30"
    by (rule mult_le_mono)
  then show ?thesis by simp
qed

lemma spin_addr_signal:
  "spin_addr (put_signal Sem a) = a" "spin_addr (wait_signal Sem a) = a"
  by (simp_all add: put_signal_def wait_signal_def)

lemma touched_sync:
  assumes "Sem = Relaxed \<or> Sem = AcqRel"
  shows "touched (sync_remote_blocks Sem who signal_pads rank world_size)
     = (if ucast (threadIdx_x who) < world_size
        then {ptr_add (signal_pads (unat (threadIdx_x who)))
                      (ucast (blockIdx_x who) * world_size + rank),
              ptr_add (signal_pads (unat rank))
                      (ucast (blockIdx_x who) * world_size + ucast (threadIdx_x who))}
        else {})"
proof (cases "ucast (threadIdx_x who) < world_size")
  case True
  then have "sync_remote_blocks Sem who signal_pads rank world_size =
     Inr [put_signal (put_sem Sem)
               (ptr_add (signal_pads (unat (threadIdx_x who)))
                        (ucast (blockIdx_x who) * world_size + rank)),
             wait_signal (wait_sem Sem)
               (ptr_add (signal_pads (unat rank))
                        (ucast (blockIdx_x who) * world_size + ucast (threadIdx_x who)))]"
    by (simp add: sync_remote_blocks_prog [OF assms])
  with True show ?thesis
    by (simp only: touched_def sum.case list.map list.set spin_addr_signal if_True)
next
  case False
  then show ?thesis by (simp add: touched_def sync_remote_blocks_prog [OF assms])
qed

lemma touched_in_range:
  assumes "Sem = Relaxed \<or> Sem = AcqRel" and "rank < world_size"
    and "(unat (blockIdx_x who) + 1) * unat world_size \<le> 2 ^ 62"
    and "p \<in> touched (sync_remote_blocks Sem who signal_pads rank world_size)"
  shows "\<exists>q k. q < unat world_size \<and> p = ptr_add (signal_pads q) (of_nat k)
           \<and> unat (blockIdx_x who) * unat world_size \<le> k
           \<and> k < (unat (blockIdx_x who) + 1) * unat world_size"
proof -
  let ?b = "blockIdx_x who" and ?t = "threadIdx_x who"
  from assms(4) have t: "ucast ?t < world_size"
    and p: "p = ptr_add (signal_pads (unat ?t)) (ucast ?b * world_size + rank)
          \<or> p = ptr_add (signal_pads (unat rank)) (ucast ?b * world_size + ucast ?t)"
    by (auto simp add: touched_sync [OF assms(1)] split: if_splits)
  from t have tq: "unat ?t < unat world_size"
    by (simp add: word_less_nat_alt unat_ucast_32_64)
  from assms(2) have rq: "unat rank < unat world_size" by (simp add: word_less_nat_alt)
  from assms(3) have fits: "(unat ?b + 1) * unat world_size \<le> 2 ^ 64" by simp
  note r = unat_slot_index [OF assms(2) fits]
  note u = unat_slot_index [OF t fits]
  from p show ?thesis
  proof
    assume "p = ptr_add (signal_pads (unat ?t)) (ucast ?b * world_size + rank)"
    then have "p = ptr_add (signal_pads (unat ?t))
        (of_nat (unat (ucast ?b * world_size + rank)))" by simp
    with tq r show ?thesis by (metis le_add1)
  next
    assume "p = ptr_add (signal_pads (unat rank)) (ucast ?b * world_size + ucast ?t)"
    then have "p = ptr_add (signal_pads (unat rank))
        (of_nat (unat (ucast ?b * world_size + ucast ?t)))" by simp
    with rq u show ?thesis by (metis le_add1)
  qed
qed

lemma touched_disjoint:
  assumes "Sem = Relaxed \<or> Sem = AcqRel" and "Sem' = Relaxed \<or> Sem' = AcqRel"
    and "rank < world_size" and "rank' < world_size"
    and "(unat (blockIdx_x who) + 1) * unat world_size \<le> 2 ^ 62"
    and "(unat (blockIdx_x who') + 1) * unat world_size \<le> 2 ^ 62"
    and "blockIdx_x who \<noteq> blockIdx_x who'"
    and "inj_on pad (signal_pads ` {..<unat world_size})"
  shows "touched (sync_remote_blocks Sem who signal_pads rank world_size)
       \<inter> touched (sync_remote_blocks Sem' who' signal_pads rank' world_size) = {}"
proof (rule ccontr)
  let ?W = "unat world_size"
  assume "touched (sync_remote_blocks Sem who signal_pads rank world_size)
     \<inter> touched (sync_remote_blocks Sem' who' signal_pads rank' world_size) \<noteq> {}"
  then obtain p where p1: "p \<in> touched (sync_remote_blocks Sem who signal_pads rank world_size)"
    and p2: "p \<in> touched (sync_remote_blocks Sem' who' signal_pads rank' world_size)" by blast
  from touched_in_range [OF assms(1,3,5) p1] obtain q k where
    q: "q < ?W" and p: "p = ptr_add (signal_pads q) (of_nat k)"
    and k: "unat (blockIdx_x who) * ?W \<le> k" "k < (unat (blockIdx_x who) + 1) * ?W"
    by blast
  from touched_in_range [OF assms(2,4,6) p2] obtain q' k' where
    q': "q' < ?W" and p': "p = ptr_add (signal_pads q') (of_nat k')"
    and k': "unat (blockIdx_x who') * ?W \<le> k'" "k' < (unat (blockIdx_x who') + 1) * ?W"
    by blast
  from p p' have "pad (signal_pads q) = pad (signal_pads q')" by (simp add: ptr_add_def)
  with assms(8) q q' have "signal_pads q = signal_pads q'" by (simp add: inj_on_def)
  with p p' have "(of_nat k :: 62 word) = of_nat k'"
    by (simp add: ptr_add_def ucast_of_nat_62)
  moreover from k(2) assms(5) have "k < 2 ^ 62" by simp
  moreover from k'(2) assms(6) have "k' < 2 ^ 62" by simp
  ultimately have same: "k = k'" by (rule of_nat_62_inj [rotated 2])
  from assms(7) have "unat (blockIdx_x who) \<noteq> unat (blockIdx_x who')"
    by (simp add: word_unat_eq_iff)
  then consider "unat (blockIdx_x who) + 1 \<le> unat (blockIdx_x who')"
    | "unat (blockIdx_x who') + 1 \<le> unat (blockIdx_x who)" by linarith
  then show False
  proof cases
    case 1
    then have "(unat (blockIdx_x who) + 1) * ?W \<le> unat (blockIdx_x who') * ?W"
      by (rule mult_le_mono1)
    with k k' same show False by linarith
  next
    case 2
    then have "(unat (blockIdx_x who') + 1) * ?W \<le> unat (blockIdx_x who) * ?W"
      by (rule mult_le_mono1)
    with k k' same show False by linarith
  qed
qed

section \<open>The claims\<close>

subsection \<open>Alignment probe\<close>

text \<open>
  Claim C6. For every input value, \<open>get_alignment\<close> returns a result (it is a total
  function), and the result is the largest of 16, 8, 4, 2, 1 that divides the value: it is
  one of the five, it divides the value, and each of the five that divides the value is at
  most the result. For the value 0 the result is 16. The specialization for \<^verbatim>\<open>size_t\<close>
  returns the same.
\<close>

theorem get_alignment_largest_divisor:
  "get_alignment v \<in> {16, 8, 4, 2, 1}
   \<and> unat (get_alignment v) dvd unat v
   \<and> (\<forall>a\<in>{16, 8, 4, 2, 1}. a dvd unat v \<longrightarrow> a \<le> unat (get_alignment v))
   \<and> get_alignment 0 = 16
   \<and> get_alignment_size_t v = get_alignment v"
  unfolding get_alignment_def get_alignment_size_t_def
  by (auto simp add: word_mod_zero_dvd)

theorem get_alignment_largest_divisor_witness:
  "(16::nat) dvd unat (48 :: 64 word) \<and> get_alignment 48 = 16 \<and> get_alignment 17 = 1
   \<and> (4::nat) dvd unat (12 :: 64 word) \<and> (4::nat) \<le> unat (get_alignment 12)
   \<and> get_alignment_size_t 32 = 16"
  using get_alignment_largest_divisor [of 48] get_alignment_largest_divisor [of 12]
  by (simp add: get_alignment_def get_alignment_size_t_def)

subsection \<open>Compare-and-swap\<close>

text \<open>
  Claim C1, as amended. In a build that is not for ROCm and not for an architecture
  below 800, \<open>cas\<close> instantiated with \<open>Relaxed\<close>, \<open>Acquire\<close> or \<open>Release\<close> executes
  exactly one instruction \<^verbatim>\<open>atom.global.<sem>.sys.cas.b32\<close> with the suffix of its token
  (\<^verbatim>\<open>.relaxed\<close>, \<^verbatim>\<open>.acquire\<close>, \<^verbatim>\<open>.release\<close>), stores the new value if and only if the
  word at the address equals the expected one, and returns the word that was at the
  address before. Instantiated with \<open>AcqRel\<close> it does not build (its
  \<^verbatim>\<open>static_assert\<close> fires), and no instruction is executed. In a ROCm build or below
  architecture 800, \<open>cas\<close> with any token stops at \<^verbatim>\<open>CUDA_KERNEL_ASSERT(false)\<close>,
  returns nothing and leaves the memory as it was.
\<close>

theorem cas_orderings:
  "(\<not> cas_unsupported cfg \<longrightarrow>
      cas who cfg Relaxed addr compare val d =
        (Inr (mem d addr),
         d\<lparr>mem := (if mem d addr = compare then (mem d)(addr := val) else mem d),
           cas_log := cas_log d @
             [CasEvent who ''atom.global.relaxed.sys.cas.b32'' addr compare val (mem d addr)]\<rparr>)
    \<and> cas who cfg Acquire addr compare val d =
        (Inr (mem d addr),
         d\<lparr>mem := (if mem d addr = compare then (mem d)(addr := val) else mem d),
           cas_log := cas_log d @
             [CasEvent who ''atom.global.acquire.sys.cas.b32'' addr compare val (mem d addr)]\<rparr>)
    \<and> cas who cfg Release addr compare val d =
        (Inr (mem d addr),
         d\<lparr>mem := (if mem d addr = compare then (mem d)(addr := val) else mem d),
           cas_log := cas_log d @
             [CasEvent who ''atom.global.release.sys.cas.b32'' addr compare val (mem d addr)]\<rparr>)
    \<and> cas who cfg AcqRel addr compare val d = (Inl StaticAssertFailed, d))
   \<and> (cas_unsupported cfg \<longrightarrow>
        cas who cfg Sem addr compare val d = (Inl KernelAssertFailed, d))"
  by (simp add: cas_def CAS_ASM_def CUDA_KERNEL_ASSERT_def Let_def)

theorem cas_orderings_witness:
  "\<not> cas_unsupported sm90
   \<and> fst (cas thread00 sm90 Release (Ptr 0 0) 0 1 cleared) = Inr 0
   \<and> mem (snd (cas thread00 sm90 Release (Ptr 0 0) 0 1 cleared)) (Ptr 0 0) = 1
   \<and> map ev_opcode (cas_log (snd (cas thread00 sm90 Release (Ptr 0 0) 0 1 cleared)))
       = [''atom.global.release.sys.cas.b32'']
   \<and> fst (cas thread00 sm90 Relaxed (Ptr 0 0) 1 0 cleared) = Inr 0
   \<and> mem (snd (cas thread00 sm90 Relaxed (Ptr 0 0) 1 0 cleared)) (Ptr 0 0) = 0
   \<and> cas_unsupported rocm
   \<and> cas thread00 rocm Relaxed (Ptr 0 0) 0 1 cleared = (Inl KernelAssertFailed, cleared)
   \<and> cas_unsupported sm70
   \<and> cas thread00 sm70 Acquire (Ptr 0 0) 0 1 cleared = (Inl KernelAssertFailed, cleared)"
  using cas_orderings [where cfg = sm90 and who = thread00 and addr = "Ptr 0 0"
          and compare = 0 and val = 1 and d = cleared]
        cas_orderings [where cfg = sm90 and who = thread00 and addr = "Ptr 0 0"
          and compare = 1 and val = 0 and d = cleared]
        cas_orderings [where cfg = rocm and who = thread00 and addr = "Ptr 0 0"
          and compare = 0 and val = 1 and d = cleared and Sem = Relaxed]
        cas_orderings [where cfg = sm70 and who = thread00 and addr = "Ptr 0 0"
          and compare = 0 and val = 1 and d = cleared and Sem = Acquire]
  by (simp add: cas_unsupported_def sm90_def sm70_def rocm_def cleared_def)

text \<open>
  The claim as it was written includes \<open>AcqRel\<close> among the tokens \<open>cas\<close> is defined
  for. On architecture 900 the instantiation with \<open>AcqRel\<close> fails its
  \<^verbatim>\<open>static_assert\<close>: there is no value it returns and no instruction it executes.
\<close>

theorem cas_AcqRel_counterexample:
  "cas thread00 sm90 AcqRel (Ptr 0 0) 0 1 cleared = (Inl StaticAssertFailed, cleared)
   \<and> \<not> (\<exists>v d'. cas thread00 sm90 AcqRel (Ptr 0 0) 0 1 cleared = (Inr v, d'))
   \<and> cas_log (snd (cas thread00 sm90 AcqRel (Ptr 0 0) 0 1 cleared)) = []"
  by (simp add: cas_def cas_unsupported_def sm90_def cleared_def)

subsection \<open>Block synchronization: what a thread does\<close>

text \<open>
  Claim C2. In a call \<^verbatim>\<open>sync_remote_blocks<Sem>(signal_pads, rank, world_size)\<close>, for
  \<open>Sem\<close> one of the two tokens the function is defined for, a thread whose number \<open>r\<close> is
  below \<open>world_size\<close> executes the put loop on the slot
  \<^verbatim>\<open>signal_pads[r] + blockIdx.x * world_size + rank\<close> and then the wait loop on the slot
  \<^verbatim>\<open>signal_pads[rank] + blockIdx.x * world_size + r\<close> (the index computed in
  \<^verbatim>\<open>size_t\<close>), and nothing else; a thread whose number is not below \<open>world_size\<close>
  executes nothing. In terms of what happens when the thread runs among others, under any
  schedule: the compare-and-swaps the thread has issued are, at every moment, attempts of
  the put on the first slot up to the one that found 0, followed by attempts of the wait
  on the second slot up to the one that found 1 (this is what \<open>replay\<close> checks), and the
  loops it has left are those these attempts have not ended; a thread whose number is not
  below \<open>world_size\<close> never issues a compare-and-swap.
\<close>

theorem sync_remote_blocks_thread:
  assumes "Sem = Relaxed \<or> Sem = AcqRel"
  shows
    "(ucast (threadIdx_x who) < world_size \<longrightarrow>
        sync_remote_blocks Sem who signal_pads rank world_size
          = Inr [put_signal (put_sem Sem)
                   (ptr_add (signal_pads (unat (threadIdx_x who)))
                            (ucast (blockIdx_x who) * world_size + rank)),
                 wait_signal (wait_sem Sem)
                   (ptr_add (signal_pads (unat rank))
                            (ucast (blockIdx_x who) * world_size + ucast (threadIdx_x who)))]
        \<and> (distinct (map th_ctx (threads S)) \<and> k < length (threads S)
             \<and> th_ctx (threads S ! k) = who \<and> own_events who S = []
             \<and> sync_remote_blocks Sem who signal_pads rank world_size
                 = Inr (th_prog (threads S ! k)) \<longrightarrow>
            replay [put_signal (put_sem Sem)
                      (ptr_add (signal_pads (unat (threadIdx_x who)))
                               (ucast (blockIdx_x who) * world_size + rank)),
                    wait_signal (wait_sem Sem)
                      (ptr_add (signal_pads (unat rank))
                               (ucast (blockIdx_x who) * world_size + ucast (threadIdx_x who)))]
                   (own_events who (run cfg sched S))
              = Some (th_prog (threads (run cfg sched S) ! k))))
     \<and> (\<not> ucast (threadIdx_x who) < world_size \<longrightarrow>
        sync_remote_blocks Sem who signal_pads rank world_size = Inr []
        \<and> (distinct (map th_ctx (threads S)) \<and> k < length (threads S)
             \<and> th_ctx (threads S ! k) = who \<and> own_events who S = []
             \<and> sync_remote_blocks Sem who signal_pads rank world_size
                 = Inr (th_prog (threads S ! k)) \<longrightarrow>
            own_events who (run cfg sched S) = []
            \<and> th_prog (threads (run cfg sched S) ! k) = []))"
proof -
  note prog = sync_remote_blocks_prog [OF assms, of who signal_pads rank world_size]
  have running: "replay (th_prog (threads S ! k)) (own_events who (run cfg sched S))
                   = Some (th_prog (threads (run cfg sched S) ! k))"
    if "distinct (map th_ctx (threads S))" and "k < length (threads S)"
      and "th_ctx (threads S ! k) = who" and "own_events who S = []"
    using run_replay [of S k cfg sched] that by simp
  show ?thesis
  proof (cases "ucast (threadIdx_x who) < world_size")
    case True
    with prog running show ?thesis by auto
  next
    case False
    with prog have empty: "sync_remote_blocks Sem who signal_pads rank world_size = Inr []"
      by simp
    have "own_events who (run cfg sched S) = []
          \<and> th_prog (threads (run cfg sched S) ! k) = []"
      if h: "distinct (map th_ctx (threads S))" "k < length (threads S)"
        "th_ctx (threads S ! k) = who" "own_events who S = []"
        and p: "th_prog (threads S ! k) = []"
    proof -
      from running [OF h] p
      have r: "replay [] (own_events who (run cfg sched S))
                 = Some (th_prog (threads (run cfg sched S) ! k))" by simp
      then show ?thesis by (cases "own_events who (run cfg sched S)") simp_all
    qed
    with False empty show ?thesis by auto
  qed
qed

theorem sync_remote_blocks_thread_witness:
  "ucast (threadIdx_x thread01) < (2 :: size_t)
   \<and> distinct (map th_ctx (threads two_ranks))
   \<and> th_ctx (threads two_ranks ! 1) = thread01
   \<and> own_events thread01 two_ranks = []
   \<and> sync_remote_blocks Relaxed thread01 one_pad_per_rank 0 2
       = Inr (th_prog (threads two_ranks ! 1))
   \<and> replay [put_signal Relaxed (Ptr 1 0), wait_signal Relaxed (Ptr 0 1)]
         (own_events thread01 (run sm90 interleaving two_ranks)) = Some []
   \<and> map ev_old (own_events thread01 (run sm90 interleaving two_ranks)) = [0, 0, 1]
   \<and> \<not> ucast (threadIdx_x thread02) < (2 :: size_t)
   \<and> th_ctx (threads two_ranks ! 2) = thread02
   \<and> own_events thread02 two_ranks = []
   \<and> sync_remote_blocks Relaxed thread02 one_pad_per_rank 0 2
       = Inr (th_prog (threads two_ranks ! 2))
   \<and> own_events thread02 (run sm90 interleaving two_ranks) = []"
proof -
  have h1: "ucast (threadIdx_x thread01) < (2 :: size_t)
      \<and> distinct (map th_ctx (threads two_ranks)) \<and> (1 :: nat) < length (threads two_ranks)
      \<and> th_ctx (threads two_ranks ! 1) = thread01
      \<and> own_events thread01 two_ranks = []
      \<and> sync_remote_blocks Relaxed thread01 one_pad_per_rank 0 2
          = Inr (th_prog (threads two_ranks ! 1))"
    by code_simp
  have h2: "\<not> ucast (threadIdx_x thread02) < (2 :: size_t)
      \<and> (2 :: nat) < length (threads two_ranks)
      \<and> th_ctx (threads two_ranks ! 2) = thread02
      \<and> own_events thread02 two_ranks = []
      \<and> sync_remote_blocks Relaxed thread02 one_pad_per_rank 0 2
          = Inr (th_prog (threads two_ranks ! 2))"
    by code_simp
  have a: "put_signal (put_sem Relaxed)
             (ptr_add (one_pad_per_rank (unat (threadIdx_x thread01)))
                      (ucast (blockIdx_x thread01) * 2 + 0))
           = put_signal Relaxed (Ptr 1 0)"
    "wait_signal (wait_sem Relaxed)
             (ptr_add (one_pad_per_rank (unat (0 :: size_t)))
                      (ucast (blockIdx_x thread01) * 2 + ucast (threadIdx_x thread01)))
           = wait_signal Relaxed (Ptr 0 1)"
    by code_simp+
  have e: "th_prog (threads (run sm90 interleaving two_ranks) ! 1) = []"
    "map ev_old (own_events thread01 (run sm90 interleaving two_ranks)) = [0, 0, 1]"
    by code_simp+
  from sync_remote_blocks_thread [where Sem = Relaxed and who = thread01
      and world_size = 2 and signal_pads = one_pad_per_rank and rank = 0
      and S = two_ranks and k = 1 and cfg = sm90 and sched = interleaving] h1
  have "replay [put_signal (put_sem Relaxed)
             (ptr_add (one_pad_per_rank (unat (threadIdx_x thread01)))
                      (ucast (blockIdx_x thread01) * 2 + 0)),
           wait_signal (wait_sem Relaxed)
             (ptr_add (one_pad_per_rank (unat (0 :: size_t)))
                      (ucast (blockIdx_x thread01) * 2 + ucast (threadIdx_x thread01)))]
          (own_events thread01 (run sm90 interleaving two_ranks))
        = Some (th_prog (threads (run sm90 interleaving two_ranks) ! 1))"
    by blast
  then have r1: "replay [put_signal Relaxed (Ptr 1 0), wait_signal Relaxed (Ptr 0 1)]
         (own_events thread01 (run sm90 interleaving two_ranks)) = Some []"
    by (simp only: a e)
  from sync_remote_blocks_thread [where Sem = Relaxed and who = thread02
      and world_size = 2 and signal_pads = one_pad_per_rank and rank = 0
      and S = two_ranks and k = 2 and cfg = sm90 and sched = interleaving] h1 h2
  have r2: "own_events thread02 (run sm90 interleaving two_ranks) = []"
    by blast
  from h1 h2 e r1 r2 show ?thesis by blast
qed

subsection \<open>Put and wait\<close>

text \<open>
  Claim C3. First, one iteration. When a thread is in \<open>put_signal\<close> on a slot (in a build
  where \<open>cas\<close> runs, with a token \<open>cas\<close> accepts) and takes a step, it issues one
  compare-and-swap with expected value 0 and new value 1; it leaves the loop if and only
  if this instruction of its own found 0, and then the slot holds 1; otherwise the slot
  is as it was and the thread is still in the loop. The same holds for \<open>wait_signal\<close>
  with expected value 1 and new value 0. A thread that takes \<open>n\<close> steps in a row in a put
  on a slot that does not hold 0, or in a wait on a slot that does not hold 1, is still
  in that loop, and the memory is as it was: the call does not return. Second, whole
  runs, under any schedule and with any other threads: what a thread has left to run is
  what \<open>replay\<close> leaves of its program after the instructions it issued itself, so each
  put or wait it has returned from ended with exactly one instruction of its own that
  found the awaited value, after attempts of that same loop that did not. Third, the slot: if only puts and waits run and
  the slot starts at 0, the values it goes through, repetitions dropped, are
  \<open>0, 1, 0, 1, \<dots>\<close>, and the number of changes is the number of puts and waits on the slot
  that have returned: no transition is lost and none happens twice.
\<close>

theorem put_wait_handshake:
  "(fault S = None \<and> i < length (threads S) \<and> \<not> cas_unsupported cfg \<and> Sem \<noteq> AcqRel \<longrightarrow>
      (th_prog (threads S ! i) = put_signal Sem a # rest \<longrightarrow>
         th_prog (threads (step cfg S i) ! i)
           = (if mem (dev S) a = 0 then rest else put_signal Sem a # rest)
         \<and> mem (dev (step cfg S i))
           = (if mem (dev S) a = 0 then (mem (dev S))(a := 1) else mem (dev S))
         \<and> (\<exists>opc. cas_log (dev (step cfg S i))
               = cas_log (dev S) @ [CasEvent (th_ctx (threads S ! i)) opc a 0 1 (mem (dev S) a)]))
      \<and> (th_prog (threads S ! i) = wait_signal Sem a # rest \<longrightarrow>
         th_prog (threads (step cfg S i) ! i)
           = (if mem (dev S) a = 1 then rest else wait_signal Sem a # rest)
         \<and> mem (dev (step cfg S i))
           = (if mem (dev S) a = 1 then (mem (dev S))(a := 0) else mem (dev S))
         \<and> (\<exists>opc. cas_log (dev (step cfg S i))
               = cas_log (dev S) @ [CasEvent (th_ctx (threads S ! i)) opc a 1 0 (mem (dev S) a)])))
   \<and> (fault S = None \<and> i < length (threads S) \<and> \<not> cas_unsupported cfg \<and> Sem \<noteq> AcqRel \<longrightarrow>
      (th_prog (threads S ! i) = put_signal Sem a # rest \<and> mem (dev S) a \<noteq> 0 \<longrightarrow>
         th_prog (threads (run cfg (replicate n i) S) ! i) = put_signal Sem a # rest
         \<and> mem (dev (run cfg (replicate n i) S)) = mem (dev S))
      \<and> (th_prog (threads S ! i) = wait_signal Sem a # rest \<and> mem (dev S) a \<noteq> 1 \<longrightarrow>
         th_prog (threads (run cfg (replicate n i) S) ! i) = wait_signal Sem a # rest
         \<and> mem (dev (run cfg (replicate n i) S)) = mem (dev S)))
   \<and> (distinct (map th_ctx (threads S)) \<and> k < length (threads S)
        \<and> own_events (th_ctx (threads S ! k)) S = [] \<longrightarrow>
        replay (th_prog (threads S ! k)) (own_events (th_ctx (threads S ! k)) (run cfg sched S))
          = Some (th_prog (threads (run cfg sched S) ! k)))
   \<and> (signals_only S \<and> mem (dev S) a = 0 \<longrightarrow>
        remdups_adj (slot_history cfg sched S a)
          = alternation (length (remdups_adj (slot_history cfg sched S a)))
        \<and> length (remdups_adj (slot_history cfg sched S a))
            + pending is_put a (run cfg sched S) + pending is_wait a (run cfg sched S)
          = Suc (pending is_put a S + pending is_wait a S))"
proof (intro conjI impI)
  assume h: "fault S = None \<and> i < length (threads S) \<and> \<not> cas_unsupported cfg \<and> Sem \<noteq> AcqRel"
    and p: "th_prog (threads S ! i) = put_signal Sem a # rest"
  from p have p': "th_prog (threads S ! i) = Spin Sem a 0 1 0 # rest"
    by (simp add: put_signal_def)
  from h p' show "th_prog (threads (step cfg S i) ! i)
           = (if mem (dev S) a = 0 then rest else put_signal Sem a # rest)"
    by (simp add: step_signal(1) put_signal_def)
  from h p' show "mem (dev (step cfg S i))
           = (if mem (dev S) a = 0 then (mem (dev S))(a := 1) else mem (dev S))"
    by (simp add: step_signal(2))
  from h p' show "\<exists>opc. cas_log (dev (step cfg S i))
               = cas_log (dev S) @ [CasEvent (th_ctx (threads S ! i)) opc a 0 1 (mem (dev S) a)]"
    by (simp add: step_signal(3))
next
  assume h: "fault S = None \<and> i < length (threads S) \<and> \<not> cas_unsupported cfg \<and> Sem \<noteq> AcqRel"
    and w: "th_prog (threads S ! i) = wait_signal Sem a # rest"
  from w have w': "th_prog (threads S ! i) = Spin Sem a 1 0 1 # rest"
    by (simp add: wait_signal_def)
  from h w' show "th_prog (threads (step cfg S i) ! i)
           = (if mem (dev S) a = 1 then rest else wait_signal Sem a # rest)"
    by (simp add: step_signal(1) wait_signal_def)
  from h w' show "mem (dev (step cfg S i))
           = (if mem (dev S) a = 1 then (mem (dev S))(a := 0) else mem (dev S))"
    by (simp add: step_signal(2))
  from h w' show "\<exists>opc. cas_log (dev (step cfg S i))
               = cas_log (dev S) @ [CasEvent (th_ctx (threads S ! i)) opc a 1 0 (mem (dev S) a)]"
    by (simp add: step_signal(3))
next
  assume h: "fault S = None \<and> i < length (threads S) \<and> \<not> cas_unsupported cfg \<and> Sem \<noteq> AcqRel"
    and p: "th_prog (threads S ! i) = put_signal Sem a # rest \<and> mem (dev S) a \<noteq> 0"
  then have "fault S = None" "i < length (threads S)"
    "th_prog (threads S ! i) = Spin Sem a 0 1 0 # rest" "\<not> cas_unsupported cfg"
    "Sem \<noteq> AcqRel" "mem (dev S) a \<noteq> 0"
    by (simp_all add: put_signal_def)
  note alone = spin_alone [OF this, of n]
  from alone p show "th_prog (threads (run cfg (replicate n i) S) ! i) = put_signal Sem a # rest"
    by simp
  from alone show "mem (dev (run cfg (replicate n i) S)) = mem (dev S)" by simp
next
  assume h: "fault S = None \<and> i < length (threads S) \<and> \<not> cas_unsupported cfg \<and> Sem \<noteq> AcqRel"
    and w: "th_prog (threads S ! i) = wait_signal Sem a # rest \<and> mem (dev S) a \<noteq> 1"
  then have "fault S = None" "i < length (threads S)"
    "th_prog (threads S ! i) = Spin Sem a 1 0 1 # rest" "\<not> cas_unsupported cfg"
    "Sem \<noteq> AcqRel" "mem (dev S) a \<noteq> 1"
    by (simp_all add: wait_signal_def)
  note alone = spin_alone [OF this, of n]
  from alone w show "th_prog (threads (run cfg (replicate n i) S) ! i) = wait_signal Sem a # rest"
    by simp
  from alone show "mem (dev (run cfg (replicate n i) S)) = mem (dev S)" by simp
next
  assume "distinct (map th_ctx (threads S)) \<and> k < length (threads S)
        \<and> own_events (th_ctx (threads S ! k)) S = []"
  then show "replay (th_prog (threads S ! k))
               (own_events (th_ctx (threads S ! k)) (run cfg sched S))
          = Some (th_prog (threads (run cfg sched S) ! k))"
    by (simp add: run_replay)
next
  assume h: "signals_only S \<and> mem (dev S) a = 0"
  then have "signals_only S" and "mem (dev S) a = 0" by simp_all
  note alt = history_alternates [OF this, of cfg sched]
  from alt show "remdups_adj (slot_history cfg sched S a)
          = alternation (length (remdups_adj (slot_history cfg sched S a)))" by (rule conjunct1)
  from alt show "length (remdups_adj (slot_history cfg sched S a))
            + pending is_put a (run cfg sched S) + pending is_wait a (run cfg sched S)
          = Suc (pending is_put a S + pending is_wait a S)" by (rule conjunct2)
qed

theorem put_wait_handshake_witness:
  "fault handshake = None \<and> (0 :: nat) < length (threads handshake)
   \<and> \<not> cas_unsupported sm90 \<and> Release \<noteq> AcqRel \<and> Acquire \<noteq> AcqRel
   \<and> th_prog (threads handshake ! 0)
       = put_signal Release (Ptr 1 0) # [put_signal Release (Ptr 1 0)]
   \<and> th_prog (threads (step sm90 handshake 0) ! 0) = [put_signal Release (Ptr 1 0)]
   \<and> mem (dev (step sm90 handshake 0)) (Ptr 1 0) = 1
   \<and> th_prog (threads handshake ! 1)
       = wait_signal Acquire (Ptr 1 0) # [wait_signal Acquire (Ptr 1 0)]
   \<and> th_prog (threads (step sm90 handshake 1) ! 1)
       = wait_signal Acquire (Ptr 1 0) # [wait_signal Acquire (Ptr 1 0)]
   \<and> mem (dev (step sm90 handshake 1)) (Ptr 1 0) = 0
   \<and> mem (dev handshake) (Ptr 1 0) \<noteq> 1
   \<and> th_prog (threads (run sm90 (replicate 3 1) handshake) ! 1)
       = wait_signal Acquire (Ptr 1 0) # [wait_signal Acquire (Ptr 1 0)]
   \<and> distinct (map th_ctx (threads handshake))
   \<and> own_events (th_ctx (threads handshake ! 0)) handshake = []
   \<and> replay (th_prog (threads handshake ! 0))
        (own_events (th_ctx (threads handshake ! 0)) (run sm90 [1, 0, 0, 1, 0, 1] handshake))
       = Some []
   \<and> signals_only handshake \<and> mem (dev handshake) (Ptr 1 0) = 0
   \<and> slot_history sm90 [1, 0, 0, 1, 0, 1] handshake (Ptr 1 0) = [0, 0, 1, 1, 0, 1, 0]
   \<and> remdups_adj (slot_history sm90 [1, 0, 0, 1, 0, 1] handshake (Ptr 1 0)) = alternation 5
   \<and> pending is_put (Ptr 1 0) handshake + pending is_wait (Ptr 1 0) handshake = 4
   \<and> pending is_put (Ptr 1 0) (run sm90 [1, 0, 0, 1, 0, 1] handshake)
       + pending is_wait (Ptr 1 0) (run sm90 [1, 0, 0, 1, 0, 1] handshake) = 0"
proof -
  have h: "fault handshake = None \<and> (0 :: nat) < length (threads handshake)
      \<and> (1 :: nat) < length (threads handshake)
      \<and> \<not> cas_unsupported sm90 \<and> Release \<noteq> AcqRel \<and> Acquire \<noteq> AcqRel
      \<and> th_prog (threads handshake ! 0)
          = put_signal Release (Ptr 1 0) # [put_signal Release (Ptr 1 0)]
      \<and> th_prog (threads handshake ! 1)
          = wait_signal Acquire (Ptr 1 0) # [wait_signal Acquire (Ptr 1 0)]
      \<and> mem (dev handshake) (Ptr 1 0) = 0
      \<and> distinct (map th_ctx (threads handshake))
      \<and> own_events (th_ctx (threads handshake ! 0)) handshake = []
      \<and> signals_only handshake"
    by code_simp
  have e: "th_prog (threads (run sm90 [1, 0, 0, 1, 0, 1] handshake) ! 0) = []"
    "slot_history sm90 [1, 0, 0, 1, 0, 1] handshake (Ptr 1 0) = [0, 0, 1, 1, 0, 1, 0]"
    "pending is_put (Ptr 1 0) handshake + pending is_wait (Ptr 1 0) handshake = 4"
    by code_simp+
  note put = put_wait_handshake [where S = handshake and i = 0 and cfg = sm90
      and Sem = Release and a = "Ptr 1 0" and rest = "[put_signal Release (Ptr 1 0)]"
      and k = 0 and sched = "[1, 0, 0, 1, 0, 1]"]
  note wait = put_wait_handshake [where S = handshake and i = 1 and cfg = sm90
      and Sem = Acquire and a = "Ptr 1 0" and rest = "[wait_signal Acquire (Ptr 1 0)]"
      and k = 0 and sched = "[1, 0, 0, 1, 0, 1]"]
  from put h have p: "th_prog (threads (step sm90 handshake 0) ! 0) = [put_signal Release (Ptr 1 0)]"
    "mem (dev (step sm90 handshake 0)) (Ptr 1 0) = 1" by simp_all
  from wait h have w: "th_prog (threads (step sm90 handshake 1) ! 1)
       = wait_signal Acquire (Ptr 1 0) # [wait_signal Acquire (Ptr 1 0)]"
    "mem (dev (step sm90 handshake 1)) (Ptr 1 0) = 0" by simp_all
  from put_wait_handshake [where S = handshake and i = 1 and cfg = sm90
      and Sem = Acquire and a = "Ptr 1 0" and rest = "[wait_signal Acquire (Ptr 1 0)]"
      and n = 3] h
  have b: "mem (dev handshake) (Ptr 1 0) \<noteq> 1"
    "th_prog (threads (run sm90 (replicate 3 1) handshake) ! 1)
       = wait_signal Acquire (Ptr 1 0) # [wait_signal Acquire (Ptr 1 0)]"
    by simp_all
  from put h e(1) have r: "replay (th_prog (threads handshake ! 0))
        (own_events (th_ctx (threads handshake ! 0)) (run sm90 [1, 0, 0, 1, 0, 1] handshake))
       = Some []" by simp
  from put h have alt: "remdups_adj (slot_history sm90 [1, 0, 0, 1, 0, 1] handshake (Ptr 1 0))
          = alternation (length (remdups_adj
              (slot_history sm90 [1, 0, 0, 1, 0, 1] handshake (Ptr 1 0))))"
    and cnt: "length (remdups_adj (slot_history sm90 [1, 0, 0, 1, 0, 1] handshake (Ptr 1 0)))
            + pending is_put (Ptr 1 0) (run sm90 [1, 0, 0, 1, 0, 1] handshake)
            + pending is_wait (Ptr 1 0) (run sm90 [1, 0, 0, 1, 0, 1] handshake)
          = Suc (pending is_put (Ptr 1 0) handshake + pending is_wait (Ptr 1 0) handshake)"
    by blast+
  have len: "length (remdups_adj (slot_history sm90 [1, 0, 0, 1, 0, 1] handshake (Ptr 1 0))) = 5"
    unfolding e(2) by simp
  from alt len have a5: "remdups_adj (slot_history sm90 [1, 0, 0, 1, 0, 1] handshake (Ptr 1 0))
      = alternation 5" by simp
  from cnt len e(3) have z: "pending is_put (Ptr 1 0) (run sm90 [1, 0, 0, 1, 0, 1] handshake)
       + pending is_wait (Ptr 1 0) (run sm90 [1, 0, 0, 1, 0, 1] handshake) = 0" by simp
  from h e p w b r a5 z show ?thesis by blast
qed

subsection \<open>The slots of the signal pads\<close>

text \<open>
  Claim C4. As long as the threads run nothing but puts and waits, a memory in which every
  slot holds 0 or 1 stays such a memory, under every schedule. When every put on a slot is
  matched by a wait on it, and every thread has returned from all its calls, the slot holds
  what it held at the start; so a slot that was clear is clear again. In a synchronization
  epoch (block \<open>b\<close> of every rank calling \<open>sync_remote_blocks\<close>, with at least
  \<open>world_size\<close> and at most 1024 threads in the block) every put is matched by a wait, on
  every slot; after a completed epoch the whole memory is what it was before, and each
  slot that held 0 holds 0.
\<close>

theorem signal_slots_zero_or_one:
  "(signals_only S \<and> (\<forall>x. mem (dev S) x = 0 \<or> mem (dev S) x = 1) \<longrightarrow>
      mem (dev (run cfg sched S)) a = 0 \<or> mem (dev (run cfg sched S)) a = 1)
   \<and> (signals_only S \<and> pending is_put a S = pending is_wait a S
        \<and> finished (run cfg sched S) \<longrightarrow>
      mem (dev (run cfg sched S)) a = mem (dev S) a)
   \<and> ((Sem = Relaxed \<or> Sem = AcqRel) \<and> world_size \<le> block_dim
        \<and> block_dim \<le> max_num_threads_per_block \<longrightarrow>
      signals_only (sync_epoch Sem signal_pads world_size b block_dim m0)
      \<and> pending is_put a (sync_epoch Sem signal_pads world_size b block_dim m0)
          = pending is_wait a (sync_epoch Sem signal_pads world_size b block_dim m0)
      \<and> (finished (run cfg sched (sync_epoch Sem signal_pads world_size b block_dim m0)) \<longrightarrow>
           mem (dev (run cfg sched (sync_epoch Sem signal_pads world_size b block_dim m0))) = m0
           \<and> (m0 a = 0 \<longrightarrow>
                mem (dev (run cfg sched (sync_epoch Sem signal_pads world_size b block_dim m0))) a
                  = 0)))"
proof (intro conjI impI)
  assume "signals_only S \<and> (\<forall>x. mem (dev S) x = 0 \<or> mem (dev S) x = 1)"
  then show "mem (dev (run cfg sched S)) a = 0 \<or> mem (dev (run cfg sched S)) a = 1"
    by (simp add: run_mem01)
next
  assume "signals_only S \<and> pending is_put a S = pending is_wait a S
        \<and> finished (run cfg sched S)"
  then show "mem (dev (run cfg sched S)) a = mem (dev S) a"
    by (simp add: finished_restores)
next
  let ?E = "sync_epoch Sem signal_pads world_size b block_dim m0"
  assume h: "(Sem = Relaxed \<or> Sem = AcqRel) \<and> world_size \<le> block_dim
        \<and> block_dim \<le> max_num_threads_per_block"
  then have eq: "?E = \<lparr>dev = \<lparr>mem = m0, cas_log = []\<rparr>,
            threads = map (epoch_thread Sem signal_pads world_size b)
                        (List.product [0..<world_size] [0..<block_dim]),
            fault = None\<rparr>"
    by (simp add: sync_epoch_eq)
  show so: "signals_only ?E" unfolding eq by (rule epoch_signals_only)
  from h have matched: "pending is_put x ?E = pending is_wait x ?E" for x
    unfolding eq by (simp add: epoch_matched)
  show "pending is_put a ?E = pending is_wait a ?E" by (rule matched)
  assume f: "finished (run cfg sched ?E)"
  have "mem (dev (run cfg sched ?E)) x = m0 x" for x
    using finished_restores [OF so matched f, of x] by (simp add: eq)
  then show m: "mem (dev (run cfg sched ?E)) = m0" by (rule ext)
  assume "m0 a = 0"
  with m show "mem (dev (run cfg sched ?E)) a = 0" by simp
qed

theorem signal_slots_zero_or_one_witness:
  "signals_only two_ranks
   \<and> (\<forall>x. mem (dev two_ranks) x = 0 \<or> mem (dev two_ranks) x = 1)
   \<and> (mem (dev (run sm90 [1, 1, 0, 0, 3] two_ranks)) (Ptr 0 1) = 0
        \<or> mem (dev (run sm90 [1, 1, 0, 0, 3] two_ranks)) (Ptr 0 1) = 1)
   \<and> mem (dev (run sm90 [1, 1, 0, 0, 3] two_ranks)) (Ptr 0 1) = 1
   \<and> pending is_put (Ptr 0 1) two_ranks = 1
   \<and> pending is_wait (Ptr 0 1) two_ranks = 1
   \<and> (2 :: nat) \<le> 3 \<and> (3 :: nat) \<le> max_num_threads_per_block
   \<and> finished (run sm90 interleaving two_ranks)
   \<and> mem (dev (run sm90 interleaving two_ranks)) = (\<lambda>_. 0)
   \<and> mem (dev (run sm90 interleaving two_ranks)) (Ptr 0 1) = 0"
proof -
  have h: "signals_only two_ranks
      \<and> pending is_put (Ptr 0 1) two_ranks = 1
      \<and> pending is_wait (Ptr 0 1) two_ranks = 1
      \<and> (2 :: nat) \<le> 3 \<and> (3 :: nat) \<le> max_num_threads_per_block
      \<and> finished (run sm90 interleaving two_ranks)
      \<and> mem (dev (run sm90 [1, 1, 0, 0, 3] two_ranks)) (Ptr 0 1) = 1"
    by code_simp
  have z: "mem (dev two_ranks) x = 0" for x
    by (simp add: two_ranks_def sync_epoch_eq max_num_threads_per_block_def)
  note inv = signal_slots_zero_or_one [where S = two_ranks and cfg = sm90
      and sched = "[1, 1, 0, 0, 3]" and a = "Ptr 0 1" and Sem = Relaxed
      and signal_pads = one_pad_per_rank and world_size = 2 and b = 0 and block_dim = 3
      and ?m0.0 = "\<lambda>_. 0"]
  note epoch = signal_slots_zero_or_one [where S = two_ranks and cfg = sm90
      and sched = interleaving and a = "Ptr 0 1" and Sem = Relaxed
      and signal_pads = one_pad_per_rank and world_size = 2 and b = 0 and block_dim = 3
      and ?m0.0 = "\<lambda>_. 0"]
  from inv h z
  have i: "mem (dev (run sm90 [1, 1, 0, 0, 3] two_ranks)) (Ptr 0 1) = 0
        \<or> mem (dev (run sm90 [1, 1, 0, 0, 3] two_ranks)) (Ptr 0 1) = 1"
    by blast
  from epoch h have e: "mem (dev (run sm90 interleaving two_ranks)) = (\<lambda>_. 0)"
    by (simp add: two_ranks_def)
  from h z i e show ?thesis by simp
qed

subsection \<open>Orderings of the block synchronization\<close>

text \<open>
  Claim C5. A thread that takes part in \<^verbatim>\<open>sync_remote_blocks<Relaxed>\<close> runs
  \<^verbatim>\<open>put_signal<Relaxed>\<close> and then \<^verbatim>\<open>wait_signal<Relaxed>\<close>, and each iteration of either
  executes \<^verbatim>\<open>atom.global.relaxed.sys.cas.b32\<close>. A thread that takes part in
  \<^verbatim>\<open>sync_remote_blocks<AcqRel>\<close> runs \<^verbatim>\<open>put_signal<Release>\<close> and then
  \<^verbatim>\<open>wait_signal<Acquire>\<close>; an iteration of the put executes
  \<^verbatim>\<open>atom.global.release.sys.cas.b32\<close>, an iteration of the wait
  \<^verbatim>\<open>atom.global.acquire.sys.cas.b32\<close>. (The instructions are those of a build in which
  \<open>cas\<close> runs.)
\<close>

theorem sync_remote_blocks_orderings:
  "ucast (threadIdx_x who) < world_size \<longrightarrow>
     (\<exists>p w. sync_remote_blocks Relaxed who signal_pads rank world_size = Inr [p, w]
        \<and> p = put_signal Relaxed (spin_addr p) \<and> w = wait_signal Relaxed (spin_addr w)
        \<and> (\<not> cas_unsupported cfg \<longrightarrow>
             map ev_opcode (cas_log (snd (spin_iter cfg who p d)))
               = map ev_opcode (cas_log d) @ [''atom.global.relaxed.sys.cas.b32'']
           \<and> map ev_opcode (cas_log (snd (spin_iter cfg who w d)))
               = map ev_opcode (cas_log d) @ [''atom.global.relaxed.sys.cas.b32'']))
   \<and> (\<exists>p w. sync_remote_blocks AcqRel who signal_pads rank world_size = Inr [p, w]
        \<and> p = put_signal Release (spin_addr p) \<and> w = wait_signal Acquire (spin_addr w)
        \<and> (\<not> cas_unsupported cfg \<longrightarrow>
             map ev_opcode (cas_log (snd (spin_iter cfg who p d)))
               = map ev_opcode (cas_log d) @ [''atom.global.release.sys.cas.b32'']
           \<and> map ev_opcode (cas_log (snd (spin_iter cfg who w d)))
               = map ev_opcode (cas_log d) @ [''atom.global.acquire.sys.cas.b32'']))"
  by (simp add: put_signal_def wait_signal_def spin_iter_def cas_def CAS_ASM_def Let_def)

theorem sync_remote_blocks_orderings_witness:
  "ucast (threadIdx_x thread01) < (2 :: size_t) \<and> \<not> cas_unsupported sm90
   \<and> sync_remote_blocks Relaxed thread01 one_pad_per_rank 0 2
       = Inr [put_signal Relaxed (Ptr 1 0), wait_signal Relaxed (Ptr 0 1)]
   \<and> sync_remote_blocks AcqRel thread01 one_pad_per_rank 0 2
       = Inr [put_signal Release (Ptr 1 0), wait_signal Acquire (Ptr 0 1)]
   \<and> map ev_opcode (cas_log (snd (spin_iter sm90 thread01 (put_signal Release (Ptr 1 0)) cleared)))
       = [''atom.global.release.sys.cas.b32'']
   \<and> map ev_opcode (cas_log (snd (spin_iter sm90 thread01 (wait_signal Acquire (Ptr 0 1)) cleared)))
       = [''atom.global.acquire.sys.cas.b32'']
   \<and> map ev_opcode (cas_log (snd (spin_iter sm90 thread01 (put_signal Relaxed (Ptr 1 0)) cleared)))
       = [''atom.global.relaxed.sys.cas.b32'']"
proof -
  have h: "ucast (threadIdx_x thread01) < (2 :: size_t) \<and> \<not> cas_unsupported sm90
      \<and> sync_remote_blocks Relaxed thread01 one_pad_per_rank 0 2
          = Inr [put_signal Relaxed (Ptr 1 0), wait_signal Relaxed (Ptr 0 1)]
      \<and> sync_remote_blocks AcqRel thread01 one_pad_per_rank 0 2
          = Inr [put_signal Release (Ptr 1 0), wait_signal Acquire (Ptr 0 1)]
      \<and> cas_log cleared = []"
    by code_simp
  from sync_remote_blocks_orderings [where who = thread01 and world_size = 2
      and signal_pads = one_pad_per_rank and rank = 0 and cfg = sm90 and d = cleared] h
  show ?thesis by (auto simp add: put_signal_def wait_signal_def)
qed

subsection \<open>Multicast operations\<close>

text \<open>
  Claim C7. \<open>multimem_ld_reduce_add\<close> with an element type other than \<^verbatim>\<open>at::BFloat16\<close>
  and \<^verbatim>\<open>float\<close> fails the \<^verbatim>\<open>static_assert\<close> of the unspecialized functor, whatever the
  build, the width, the pointer and the memory, and the memory is untouched: the failure
  is decided by the type alone, before anything runs. The \<^verbatim>\<open>static_assert\<close> fires for
  these types and for no other. For the two enumerated types and a width of 4, 8 or 16
  the function is defined: it stops at the device-side assertion where multicast is not
  supported, and returns a vector of the requested width otherwise.
\<close>

theorem multimem_ld_reduce_add_closed_types:
  "multimem_ld_reduce_add cfg hw Alignment (T_other n) mc_ptr d = (Inl StaticAssertFailed, d)
   \<and> (fst (multimem_ld_reduce_add cfg hw Alignment T mc_ptr d) = Inl StaticAssertFailed)
       = (T \<noteq> T_BFloat16 \<and> T \<noteq> T_float)
   \<and> (T \<in> {T_BFloat16, T_float} \<and> Vec_defined Alignment \<longrightarrow>
        (if multicast_unsupported cfg
         then multimem_ld_reduce_add cfg hw Alignment T mc_ptr d = (Inl KernelAssertFailed, d)
         else (\<exists>vec. multimem_ld_reduce_add cfg hw Alignment T mc_ptr d = (Inr vec, d)
                 \<and> int (length vec) * 4 = Alignment)))"
  by (cases T)
     (auto simp add: multimem_ld_reduce_add_def MultimemLdReduce_def
        SPECIALIZE_MULTIMEM_LD_REDUCE_VEC_32_def CUDA_KERNEL_ASSERT_def Vec_defined_def)

theorem multimem_ld_reduce_add_closed_types_witness:
  "multimem_ld_reduce_add sm90 silent 16 (T_other ''double'') 0 cleared
     = (Inl StaticAssertFailed, cleared)
   \<and> multimem_ld_reduce_add rocm silent 8 (T_other ''c10::Half'') 0 cleared
     = (Inl StaticAssertFailed, cleared)
   \<and> T_float \<in> {T_BFloat16, T_float} \<and> Vec_defined 16 \<and> \<not> multicast_unsupported sm90
   \<and> multimem_ld_reduce_add sm90 silent 16 T_float 0 cleared = (Inr [0, 0, 0, 0], cleared)
   \<and> T_BFloat16 \<in> {T_BFloat16, T_float} \<and> Vec_defined 4 \<and> multicast_unsupported sm70
   \<and> multimem_ld_reduce_add sm70 silent 4 T_BFloat16 0 cleared = (Inl KernelAssertFailed, cleared)"
  using multimem_ld_reduce_add_closed_types [where cfg = sm90 and hw = silent
          and Alignment = 16 and n = "''double''" and T = T_float and mc_ptr = 0 and d = cleared]
        multimem_ld_reduce_add_closed_types [where cfg = rocm and hw = silent
          and Alignment = 8 and n = "''c10::Half''" and T = T_float and mc_ptr = 0 and d = cleared]
        multimem_ld_reduce_add_closed_types [where cfg = sm70 and hw = silent
          and Alignment = 4 and n = "''double''" and T = T_BFloat16 and mc_ptr = 0 and d = cleared]
  by (simp add: multimem_ld_reduce_add_def MultimemLdReduce_def
        SPECIALIZE_MULTIMEM_LD_REDUCE_VEC_32_def Vec_defined_def multicast_unsupported_def
        NVCC_SUPPORTS_MULTICAST_def sm90_def sm70_def silent_def upt_rec)

text \<open>
  Claim C8. In a ROCm build, and in any build where \<^verbatim>\<open>NVCC_SUPPORTS_MULTICAST\<close> is not
  defined (no device architecture, an architecture below 900, or a CUDA runtime below
  12.1), for each of the widths 4, 8 and 16: \<open>multimem_ld_reduce_add\<close> with either
  supported element type, and \<open>multimem_st\<close> with any element type, stop at
  \<^verbatim>\<open>CUDA_KERNEL_ASSERT(false)\<close>. Nothing is returned, and the state at the abort is the
  state before the call: no multicast instruction was executed, no memory written.
\<close>

theorem multicast_unsupported_aborts:
  "multicast_unsupported cfg \<and> Alignment \<in> {4, 8, 16} \<longrightarrow>
     (T \<in> {T_BFloat16, T_float} \<longrightarrow>
        multimem_ld_reduce_add cfg hw Alignment T mc_ptr d = (Inl KernelAssertFailed, d))
     \<and> multimem_st cfg hw Alignment T mc_ptr vec d = (Inl KernelAssertFailed, d)"
  by (auto simp add: multimem_ld_reduce_add_def MultimemLdReduce_def multimem_st_def
        SPECIALIZE_MULTIMEM_LD_REDUCE_VEC_32_def CUDA_KERNEL_ASSERT_def Vec_defined_def)

theorem multicast_unsupported_aborts_witness:
  "multicast_unsupported rocm \<and> multicast_unsupported sm70
   \<and> multicast_unsupported \<lparr>USE_ROCM = False, CUDA_ARCH = Some 900, CUDART_VERSION = 12000\<rparr>
   \<and> (16 :: int) \<in> {4, 8, 16} \<and> (8 :: int) \<in> {4, 8, 16} \<and> (4 :: int) \<in> {4, 8, 16}
   \<and> T_float \<in> {T_BFloat16, T_float} \<and> T_BFloat16 \<in> {T_BFloat16, T_float}
   \<and> multimem_ld_reduce_add rocm silent 16 T_float 0 cleared = (Inl KernelAssertFailed, cleared)
   \<and> multimem_st rocm silent 16 T_float 0 [1, 2, 3, 4] cleared = (Inl KernelAssertFailed, cleared)
   \<and> multimem_ld_reduce_add sm70 silent 8 T_BFloat16 0 cleared = (Inl KernelAssertFailed, cleared)
   \<and> multimem_st sm70 silent 8 T_BFloat16 0 [1, 2] cleared = (Inl KernelAssertFailed, cleared)
   \<and> multimem_st \<lparr>USE_ROCM = False, CUDA_ARCH = Some 900, CUDART_VERSION = 12000\<rparr>
        silent 4 (T_other ''int'') 0 [1] cleared = (Inl KernelAssertFailed, cleared)"
  using multicast_unsupported_aborts [where cfg = rocm and Alignment = 16 and T = T_float
          and hw = silent and mc_ptr = 0 and d = cleared and vec = "[1, 2, 3, 4]"]
        multicast_unsupported_aborts [where cfg = sm70 and Alignment = 8 and T = T_BFloat16
          and hw = silent and mc_ptr = 0 and d = cleared and vec = "[1, 2]"]
        multicast_unsupported_aborts [where
          cfg = "\<lparr>USE_ROCM = False, CUDA_ARCH = Some 900, CUDART_VERSION = 12000\<rparr>"
          and Alignment = 4 and T = "T_other ''int''"
          and hw = silent and mc_ptr = 0 and d = cleared and vec = "[1]"]
  by (simp add: multicast_unsupported_def NVCC_SUPPORTS_MULTICAST_def rocm_def sm70_def)

subsection \<open>Block synchronization: slots and instantiations\<close>

text \<open>
  Claim C9. Take a call of either defined instantiation with \<open>rank < world_size\<close>, made
  in block \<open>b\<close>, where the slots the claim speaks of exist: the slots of a pad up to
  the last one of block \<open>b\<close>, \<open>(b + 1) * world_size\<close> words of 4 bytes, fit in the 64-bit
  address space (as they do for every block index when \<open>world_size\<close> is at most
  \<open>2 ^ 30\<close>, and a block has threads for at most 1024 ranks). Every slot the call
  touches is \<^verbatim>\<open>signal_pads[q] + k\<close> for a rank \<open>q\<close> below \<open>world_size\<close> and an offset \<open>k\<close>
  in the half-open range from \<open>b * world_size\<close> to \<open>(b + 1) * world_size\<close>. The table
  holds the pads of the ranks, and a pad is an array of the device of its rank: two
  different pointers of the table point into different allocations. Then two such calls
  in blocks with different indices touch no common slot.
\<close>

theorem sync_slots_by_block:
  assumes "Sem = Relaxed \<or> Sem = AcqRel" and "Sem' = Relaxed \<or> Sem' = AcqRel"
    and "rank < world_size"
    and "4 * ((unat (blockIdx_x who) + 1) * unat world_size) \<le> 2 ^ 64"
  shows
    "(\<forall>p\<in>touched (sync_remote_blocks Sem who signal_pads rank world_size).
        \<exists>q k. q < unat world_size \<and> p = ptr_add (signal_pads q) (of_nat k)
          \<and> unat (blockIdx_x who) * unat world_size \<le> k
          \<and> k < (unat (blockIdx_x who) + 1) * unat world_size)
     \<and> (4 * ((unat (blockIdx_x who') + 1) * unat world_size) \<le> 2 ^ 64
          \<and> blockIdx_x who \<noteq> blockIdx_x who'
          \<and> inj_on pad (signal_pads ` {..<unat world_size}) \<longrightarrow>
        touched (sync_remote_blocks Sem who signal_pads rank world_size)
          \<inter> touched (sync_remote_blocks Sem' who' signal_pads rank world_size) = {})"
proof -
  from assms(4) have fits: "(unat (blockIdx_x who) + 1) * unat world_size \<le> 2 ^ 62"
    by simp
  have "(unat (blockIdx_x who') + 1) * unat world_size \<le> 2 ^ 62"
    if "4 * ((unat (blockIdx_x who') + 1) * unat world_size) \<le> 2 ^ 64"
    using that by simp
  with touched_in_range [OF assms(1,3) fits] touched_disjoint [OF assms(1,2,3,3) fits]
  show ?thesis by blast
qed

theorem sync_slots_by_block_witness:
  "(0 :: size_t) < 2
   \<and> 4 * ((unat (blockIdx_x thread01) + 1) * unat (2 :: size_t)) \<le> 2 ^ 64
   \<and> 4 * ((unat (blockIdx_x block1_thread01) + 1) * unat (2 :: size_t)) \<le> 2 ^ 64
   \<and> blockIdx_x thread01 \<noteq> blockIdx_x block1_thread01
   \<and> inj_on pad (one_pad_per_rank ` {..<unat (2 :: size_t)})
   \<and> touched (sync_remote_blocks Relaxed thread01 one_pad_per_rank 0 2) = {Ptr 1 0, Ptr 0 1}
   \<and> touched (sync_remote_blocks AcqRel block1_thread01 one_pad_per_rank 0 2)
       = {Ptr 1 2, Ptr 0 3}
   \<and> touched (sync_remote_blocks Relaxed thread01 one_pad_per_rank 0 2)
       \<inter> touched (sync_remote_blocks AcqRel block1_thread01 one_pad_per_rank 0 2) = {}
   \<and> (\<exists>q k. q < unat (2 :: size_t) \<and> Ptr 0 3 = ptr_add (one_pad_per_rank q) (of_nat k)
         \<and> unat (blockIdx_x block1_thread01) * unat (2 :: size_t) \<le> k
         \<and> k < (unat (blockIdx_x block1_thread01) + 1) * unat (2 :: size_t))"
proof -
  have h: "(0 :: size_t) < 2
      \<and> 4 * ((unat (blockIdx_x thread01) + 1) * unat (2 :: size_t)) \<le> 2 ^ 64
      \<and> 4 * ((unat (blockIdx_x block1_thread01) + 1) * unat (2 :: size_t)) \<le> 2 ^ 64
      \<and> blockIdx_x thread01 \<noteq> blockIdx_x block1_thread01"
    by (simp add: thread01_def block1_thread01_def)
  have pads: "inj_on pad (one_pad_per_rank ` {..<unat (2 :: size_t)})"
    by (simp add: one_pad_per_rank_def inj_on_def)
  have t: "touched (sync_remote_blocks Relaxed thread01 one_pad_per_rank 0 2)
             = {Ptr 1 0, Ptr 0 1}"
    "touched (sync_remote_blocks AcqRel block1_thread01 one_pad_per_rank 0 2)
             = {Ptr 1 2, Ptr 0 3}"
    by (simp_all add: touched_def thread01_def block1_thread01_def one_pad_per_rank_def
          ptr_add_def spin_addr_signal)
  note a = sync_slots_by_block [where Sem = Relaxed and Sem' = AcqRel and rank = 0
      and world_size = 2 and who = thread01 and who' = block1_thread01
      and signal_pads = one_pad_per_rank]
  note b = sync_slots_by_block [where Sem = AcqRel and Sem' = Relaxed and rank = 0
      and world_size = 2 and who = block1_thread01 and who' = thread01
      and signal_pads = one_pad_per_rank]
  from a h pads
  have d: "touched (sync_remote_blocks Relaxed thread01 one_pad_per_rank 0 2)
       \<inter> touched (sync_remote_blocks AcqRel block1_thread01 one_pad_per_rank 0 2) = {}"
    by blast
  from b h t(2)
  have r: "\<exists>q k. q < unat (2 :: size_t) \<and> Ptr 0 3 = ptr_add (one_pad_per_rank q) (of_nat k)
         \<and> unat (blockIdx_x block1_thread01) * unat (2 :: size_t) \<le> k
         \<and> k < (unat (blockIdx_x block1_thread01) + 1) * unat (2 :: size_t)"
    by blast
  from h pads t d r show ?thesis by blast
qed

text \<open>
  Claim C10. \<open>sync_remote_blocks\<close> has a definition for the tokens \<open>Relaxed\<close> and
  \<open>AcqRel\<close> and for no other: with \<open>Acquire\<close> or \<open>Release\<close> a call names the primary
  template, which is declared and never defined, so the program does not build and there
  is nothing to run, for any thread, table, rank and world size.
\<close>

theorem sync_remote_blocks_specializations:
  "sync_remote_blocks Acquire who signal_pads rank world_size = Inl DeclaredNotDefined
   \<and> sync_remote_blocks Release who signal_pads rank world_size = Inl DeclaredNotDefined
   \<and> (\<exists>prog. sync_remote_blocks Relaxed who signal_pads rank world_size = Inr prog)
   \<and> (\<exists>prog. sync_remote_blocks AcqRel who signal_pads rank world_size = Inr prog)
   \<and> (\<exists>prog. sync_remote_blocks Sem who signal_pads rank world_size = Inr prog)
       = (Sem = Relaxed \<or> Sem = AcqRel)
   \<and> fault (sync_call Acquire signal_pads rank world_size who S) = Some DeclaredNotDefined
   \<and> fault (sync_call Release signal_pads rank world_size who S) = Some DeclaredNotDefined"
  by (cases Sem) (simp_all add: sync_call_def)

theorem sync_remote_blocks_specializations_witness:
  "sync_remote_blocks Acquire thread01 one_pad_per_rank 0 2 = Inl DeclaredNotDefined
   \<and> sync_remote_blocks Release thread01 one_pad_per_rank 0 2 = Inl DeclaredNotDefined
   \<and> sync_remote_blocks Relaxed thread01 one_pad_per_rank 0 2
       = Inr [put_signal Relaxed (Ptr 1 0), wait_signal Relaxed (Ptr 0 1)]
   \<and> step sm90 (sync_epoch Acquire one_pad_per_rank 2 0 3 (\<lambda>_. 0)) 0
       = sync_epoch Acquire one_pad_per_rank 2 0 3 (\<lambda>_. 0)
   \<and> threads (sync_epoch Release one_pad_per_rank 2 0 3 (\<lambda>_. 0)) = []"
proof -
  have e: "sync_remote_blocks Relaxed thread01 one_pad_per_rank 0 2
       = Inr [put_signal Relaxed (Ptr 1 0), wait_signal Relaxed (Ptr 0 1)]
     \<and> fault (sync_epoch Acquire one_pad_per_rank 2 0 3 (\<lambda>_. 0)) = Some DeclaredNotDefined
     \<and> threads (sync_epoch Release one_pad_per_rank 2 0 3 (\<lambda>_. 0)) = []"
    by code_simp
  then have "step sm90 (sync_epoch Acquire one_pad_per_rank 2 0 3 (\<lambda>_. 0)) 0
       = sync_epoch Acquire one_pad_per_rank 2 0 3 (\<lambda>_. 0)"
    by (simp add: step_def)
  with e sync_remote_blocks_specializations [where who = thread01
      and signal_pads = one_pad_per_rank and rank = 0 and world_size = 2 and Sem = Acquire]
  show ?thesis by simp
qed

end
